theory Spec2Isabelle
  imports Complex_Main "HOL-Library.Word"
begin

section \<open>Parameters and data of audio\_utsl.c\<close>

text \<open>
  The embedding follows \<^verbatim>\<open>src/src/audio_utsl.c\<close>. Isabelle refuses a name that ends
  in an underscore, so \<^verbatim>\<open>bufferSizeBytes_\<close>, \<^verbatim>\<open>PAPlayCallback_\<close>, \<^verbatim>\<open>SFFileReader_\<close> and
  \<^verbatim>\<open>AuInitialized_\<close> lose theirs. Pointers are modelled by what the code tests of them:
  a pointer that only ever refers to a storage field of the same struct is a \<open>bool\<close>
  (\<open>False\<close> is \<^verbatim>\<open>NULL\<close>), a pointer to heap memory or to a decoder is an \<open>option\<close>.
  \<^verbatim>\<open>PaTime\<close> is a C double; the model computes with real numbers, which agrees with
  the doubles on the sentinels, on zero and on the order of the quotients
  \<^verbatim>\<open>pos_frames / sample_rate\<close> (a correctly rounded division is monotone).
  \<^verbatim>\<open>Au_FrameCount\<close> is a long; the model uses unbounded integers for it.
\<close>

definition PA_MAX_CHANNELS :: int where
  "PA_MAX_CHANNELS = 2"

definition PA_BUFFER_FRAMECOUNT :: int where
  "PA_BUFFER_FRAMECOUNT = 256"

definition PA_RING_BUFFERCOUNT :: nat where
  "PA_RING_BUFFERCOUNT = 32"

text \<open>The enum \<^verbatim>\<open>Au_SampleFormat\<close> is a C int; its switch statements have a default
  branch, so the model keeps the integer.\<close>

type_synonym Au_SampleFormat = int

definition AUSF_F32 :: Au_SampleFormat where "AUSF_F32 = 0"
definition AUSF_I32 :: Au_SampleFormat where "AUSF_I32 = 1"
definition AUSF_I24 :: Au_SampleFormat where "AUSF_I24 = 2"
definition AUSF_I16 :: Au_SampleFormat where "AUSF_I16 = 3"
definition AUSF_I8 :: Au_SampleFormat where "AUSF_I8 = 4"
definition AUSF_UI8 :: Au_SampleFormat where "AUSF_UI8 = 5"
definition AUSF_CUSTOM :: Au_SampleFormat where "AUSF_CUSTOM = 6"

datatype PaSampleFormat = paFloat32 | paInt32 | paInt24 | paInt16 | paInt8 | paUInt8

datatype PPPS = PPPS_Playing | PPPS_Stopped

datatype PaStreamCallbackResult = paContinue | paComplete

datatype callback_ptr = Ptr_NULL | Ptr_PAEmptyCallback | Ptr_PAPlayCallback

type_synonym Au_FrameCount = int
type_synonym PaTime = real
type_synonym byte = "8 word"

text \<open>\<^verbatim>\<open>struct FRBuf\<close>: a block handed from the file reader to the callback. The array
  \<^verbatim>\<open>data\<close> is a list of the bytes the model keeps track of, from the start of the
  array; the list may be shorter than the array, and what lies beyond it is memory of
  unknown content.\<close>

record FRBuf =
  state :: PPPS
  pos_frames :: Au_FrameCount
  data :: "byte list"

text \<open>\<^verbatim>\<open>sizeof(pfr->data)\<close>, with the 4-byte float of the static assertions.\<close>

definition FRBuf_data_bytes :: int where
  "FRBuf_data_bytes = PA_BUFFER_FRAMECOUNT * PA_MAX_CHANNELS * 4"

text \<open>An open decoder handle: the \<^verbatim>\<open>SF_INFO\<close> fields the code reads, and the results
  of the \<^verbatim>\<open>sf_readf_*\<close> calls still to come, each the number of frames delivered and
  the bytes written to the start of the destination. After the last one the decoder
  reports end of file (0 frames, nothing written) for ever.\<close>

record SNDFILE =
  sf_samplerate :: int
  sf_channels :: int
  sf_reads :: "(nat \<times> byte list) list"

definition sf_readf :: "SNDFILE \<Rightarrow> (nat \<times> byte list) \<times> SNDFILE" where
  "sf_readf f = (case sf_reads f of
       [] \<Rightarrow> ((0, []), f)
     | r # rs \<Rightarrow> (r, f\<lparr>sf_reads := rs\<rparr>))"

subsection \<open>The ring buffer\<close>

text \<open>Modelled from the spec: the ring buffer of \<^verbatim>\<open>pa_ringbuffer.h\<close>, which is not
  among the sources. Section 4.2 of the spec: a power-of-two slot count fixed at
  construction, a write cursor and a read cursor that only grow, the slot of a cursor
  found modulo the capacity, \<open>read_available\<close> the distance between the cursors and
  \<open>write_available\<close> the rest of the capacity; \<open>flush\<close> discards what is queued.
  Construction fails (\<^verbatim>\<open>-1\<close> at the call site, \<open>None\<close> here) when the slot count is
  not a power of two, as the comment at \<^verbatim>\<open>PA_RING_BUFFERCOUNT\<close> requires.\<close>

record PaUtilRingBuffer =
  bufferSize :: nat
  writeIndex :: nat
  readIndex :: nat

fun is_pow2 :: "nat \<Rightarrow> bool" where
  "is_pow2 n = (if n = 0 then False else if n = 1 then True
                else if n mod 2 = 0 then is_pow2 (n div 2) else False)"

declare is_pow2.simps [simp del]

definition PaUtil_InitializeRingBuffer :: "nat \<Rightarrow> PaUtilRingBuffer option" where
  "PaUtil_InitializeRingBuffer elementCount =
     (if is_pow2 elementCount
      then Some \<lparr>bufferSize = elementCount, writeIndex = 0, readIndex = 0\<rparr>
      else None)"

definition PaUtil_GetRingBufferReadAvailable :: "PaUtilRingBuffer \<Rightarrow> int" where
  "PaUtil_GetRingBufferReadAvailable rb = int (writeIndex rb) - int (readIndex rb)"

definition PaUtil_GetRingBufferWriteAvailable :: "PaUtilRingBuffer \<Rightarrow> int" where
  "PaUtil_GetRingBufferWriteAvailable rb =
     int (bufferSize rb) - PaUtil_GetRingBufferReadAvailable rb"

text \<open>The region calls return the number of elements granted, the slot where the
  first region starts and the first region's length. The code asks for one element
  and never reads the second region, which the model leaves out.\<close>

definition PaUtil_GetRingBufferWriteRegions ::
  "PaUtilRingBuffer \<Rightarrow> int \<Rightarrow> int \<times> nat \<times> int" where
  "PaUtil_GetRingBufferWriteRegions rb elementCount =
     (let n = min elementCount (PaUtil_GetRingBufferWriteAvailable rb);
          i = writeIndex rb mod bufferSize rb
      in (n, i, min n (int (bufferSize rb) - int i)))"

definition PaUtil_GetRingBufferReadRegions ::
  "PaUtilRingBuffer \<Rightarrow> int \<Rightarrow> int \<times> nat \<times> int" where
  "PaUtil_GetRingBufferReadRegions rb elementCount =
     (let n = min elementCount (PaUtil_GetRingBufferReadAvailable rb);
          i = readIndex rb mod bufferSize rb
      in (n, i, min n (int (bufferSize rb) - int i)))"

definition PaUtil_AdvanceRingBufferWriteIndex :: "PaUtilRingBuffer \<Rightarrow> nat \<Rightarrow> PaUtilRingBuffer" where
  "PaUtil_AdvanceRingBufferWriteIndex rb n = rb\<lparr>writeIndex := writeIndex rb + n\<rparr>"

definition PaUtil_AdvanceRingBufferReadIndex :: "PaUtilRingBuffer \<Rightarrow> nat \<Rightarrow> PaUtilRingBuffer" where
  "PaUtil_AdvanceRingBufferReadIndex rb n = rb\<lparr>readIndex := readIndex rb + n\<rparr>"

definition PaUtil_FlushRingBuffer :: "PaUtilRingBuffer \<Rightarrow> PaUtilRingBuffer" where
  "PaUtil_FlushRingBuffer rb = rb\<lparr>writeIndex := 0, readIndex := 0\<rparr>"

subsection \<open>The output\<close>

text \<open>\<^verbatim>\<open>struct Au_Output\<close>. Of \<^verbatim>\<open>sf_reader_thread_storage\<close> the model keeps whether
  it holds the id of a thread that \<^verbatim>\<open>pthread_create\<close> has made and nobody has joined:
  only such an id may be handed to \<^verbatim>\<open>pthread_join\<close> and \<^verbatim>\<open>pthread_cancel\<close>. The mutex
  storage holds nothing the code reads, and \<^verbatim>\<open>pa_callback_userdata\<close> is \<^verbatim>\<open>NULL\<close>
  outside the tone generator; they are left out.\<close>

record Au_Output =
  format :: Au_SampleFormat
  sample_rate :: int
  channels :: int
  pa_stream :: bool
  pa_callback :: callback_ptr
  sf_reader_thread_storage :: bool
  sf_reader_thread :: bool
  sf_reader_semaphore_storage :: nat
  sf_reader_semaphore :: bool
  sf_reader_should_exit :: bool
  sf_fd :: "SNDFILE option"
  sf_buffer_storage :: PaUtilRingBuffer
  sf_buffer :: bool
  sf_buffer_data :: "FRBuf list option"
  playback_time :: PaTime
  playback_start_time :: PaTime
  is_playing :: bool
  playback_time_mutex :: bool
  playback_frames :: Au_FrameCount

text \<open>What the collaborators answer: the decoder library's \<^verbatim>\<open>sf_open\<close>, the device
  layer's \<^verbatim>\<open>Pa_OpenDefaultStream\<close> (by channel count, sample format and rate) and
  \<^verbatim>\<open>Pa_StartStream\<close>, the allocator and the thread library. \<^verbatim>\<open>malloc\<close> of the ring
  memory returns uninitialised slots: whatever the function says.\<close>

record env =
  sf_open :: "string \<Rightarrow> SNDFILE option"
  malloc_Au_Output_ok :: bool
  Pa_OpenDefaultStream_ok :: "int \<Rightarrow> PaSampleFormat \<Rightarrow> int \<Rightarrow> bool"
  pthread_mutex_init_ok :: bool
  malloc_sf_buffer_data :: "(nat \<Rightarrow> FRBuf) option"
  sem_init_ok :: bool
  pthread_create_ok :: bool
  Pa_StartStream_ok :: bool
  pthread_join_ok :: bool

text \<open>The calls that acquire or release a resource, in the order the code makes them.\<close>

datatype call =
    Call_malloc_Au_Output | Call_free_Au_Output
  | Call_Pa_OpenDefaultStream | Call_Pa_CloseStream
  | Call_Pa_StartStream | Call_Pa_StopStream
  | Call_sf_open | Call_sf_close
  | Call_pthread_mutex_init | Call_pthread_mutex_destroy
  | Call_malloc_sf_buffer_data | Call_free_sf_buffer_data
  | Call_PaUtil_FlushRingBuffer
  | Call_sem_init | Call_sem_destroy | Call_sem_post
  | Call_pthread_create | Call_pthread_join | Call_pthread_cancel

text \<open>Undefined behaviour the code can run into: a \<^verbatim>\<open>NULL\<close> handed to the thread
  library, a \<^verbatim>\<open>memcpy\<close> whose length is negative or exceeds the block, and a thread
  id that no \<^verbatim>\<open>pthread_create\<close> has filled in handed to \<^verbatim>\<open>pthread_join\<close>.\<close>

datatype fault = NullPointer | OutOfBounds | InvalidThread

section \<open>Internal helpers\<close>

text \<open>A C int is 32 bits (the code's static assertion); the product in
  \<^verbatim>\<open>bufferSizeBytes_\<close> wraps around.\<close>

definition int32 :: "int \<Rightarrow> int" where
  "int32 x = sint (word_of_int x :: 32 word)"

definition format_size :: "Au_SampleFormat \<Rightarrow> int option" where
  "format_size fmt =
     (if fmt = AUSF_F32 then Some 4
      else if fmt = AUSF_I32 then Some 4
      else if fmt = AUSF_I24 then Some 3
      else if fmt = AUSF_I16 then Some 2
      else if fmt = AUSF_I8 then Some 1
      else if fmt = AUSF_UI8 then Some 1
      else None)"

definition bufferSizeBytes :: "Au_Output option \<Rightarrow> int" where
  "bufferSizeBytes handle =
     (case handle of
        None \<Rightarrow> - 1
      | Some pau \<Rightarrow>
          (case format_size (format pau) of
             None \<Rightarrow> - 1
           | Some sz \<Rightarrow> int32 (PA_BUFFER_FRAMECOUNT * channels pau * sz)))"

section \<open>Lifecycle\<close>

definition pa_format_of :: "Au_SampleFormat \<Rightarrow> PaSampleFormat option" where
  "pa_format_of fmt =
     (if fmt = AUSF_F32 then Some paFloat32
      else if fmt = AUSF_I32 then Some paInt32
      else if fmt = AUSF_I24 then Some paInt24
      else if fmt = AUSF_I16 then Some paInt16
      else if fmt = AUSF_I8 then Some paInt8
      else if fmt = AUSF_UI8 then Some paUInt8
      else None)"

text \<open>The struct after \<^verbatim>\<open>memset(pau, 0, sizeof(Au_Output))\<close>.\<close>

definition zeroed_Au_Output :: Au_Output where
  "zeroed_Au_Output =
     \<lparr>format = 0, sample_rate = 0, channels = 0, pa_stream = False,
      pa_callback = Ptr_NULL, sf_reader_thread_storage = False, sf_reader_thread = False,
      sf_reader_semaphore_storage = 0, sf_reader_semaphore = False,
      sf_reader_should_exit = False, sf_fd = None,
      sf_buffer_storage = \<lparr>bufferSize = 0, writeIndex = 0, readIndex = 0\<rparr>,
      sf_buffer = False, sf_buffer_data = None,
      playback_time = 0, playback_start_time = 0, is_playing = False,
      playback_time_mutex = False, playback_frames = 0\<rparr>"

text \<open>\<^verbatim>\<open>Au_Delete\<close>: the result, the struct that is left (\<open>None\<close> once freed) and the
  calls made.\<close>

definition Au_Delete :: "bool \<Rightarrow> Au_Output option \<Rightarrow> bool \<times> Au_Output option \<times> call list" where
  "Au_Delete AuInitialized handle =
     (if \<not> AuInitialized then (False, handle, [])
      else case handle of
        None \<Rightarrow> (False, None, [])
      | Some pau \<Rightarrow>
          (True, None,
           (if pa_stream pau then [Call_Pa_StopStream] else []) @
           (if sf_fd pau \<noteq> None then [Call_sf_close] else []) @
           (if pa_stream pau then [Call_Pa_CloseStream] else []) @
           [Call_free_Au_Output]))"

text \<open>\<^verbatim>\<open>Pa_OpenDefaultStream\<close> belongs to the device library, which is not among the
  sources. The model takes one thing from that library's documented behaviour: a
  channel count that is not positive asks for no stream in that direction, and a
  stream with neither input nor output is refused (\<^verbatim>\<open>paInvalidDevice\<close>). Whether a
  stream is opened otherwise is the environment's answer.\<close>

definition Pa_OpenDefaultStream :: "env \<Rightarrow> int \<Rightarrow> int \<Rightarrow> PaSampleFormat \<Rightarrow> int \<Rightarrow> bool" where
  "Pa_OpenDefaultStream e numInputChannels numOutputChannels sampleFormat sampleRate =
     (if numInputChannels \<le> 0 \<and> numOutputChannels \<le> 0 then False
      else Pa_OpenDefaultStream_ok e numOutputChannels sampleFormat sampleRate)"

text \<open>\<^verbatim>\<open>Au_New\<close>: the handle (\<open>None\<close> is \<^verbatim>\<open>NULL\<close>) and the calls made.\<close>

definition Au_New ::
  "env \<Rightarrow> bool \<Rightarrow> Au_SampleFormat \<Rightarrow> int \<Rightarrow> int \<Rightarrow> Au_Output option \<times> call list" where
  "Au_New e AuInitialized fmt rate chans =
     (if \<not> AuInitialized then (None, [])
      else case pa_format_of fmt of
        None \<Rightarrow> (None, [])
      | Some pa_format \<Rightarrow>
          if rate < 1 then (None, [])
          else if \<not> malloc_Au_Output_ok e
          then (None, Call_malloc_Au_Output # snd (snd (Au_Delete AuInitialized None)))
          else
            let pau = zeroed_Au_Output\<lparr>format := fmt, sample_rate := rate,
                        channels := chans, pa_callback := Ptr_PAEmptyCallback\<rparr>
            in if Pa_OpenDefaultStream e 0 chans pa_format rate
               then (Some (pau\<lparr>pa_stream := True\<rparr>),
                     [Call_malloc_Au_Output, Call_Pa_OpenDefaultStream])
               else (None, [Call_malloc_Au_Output, Call_Pa_OpenDefaultStream] @
                           snd (snd (Au_Delete AuInitialized (Some pau)))))"

text \<open>\<^verbatim>\<open>Au_Stop\<close>. Two steps can go wrong, both behind the test of
  \<^verbatim>\<open>pau->sf_reader_thread\<close>: \<^verbatim>\<open>sem_post\<close> on a \<^verbatim>\<open>NULL\<close> semaphore, and
  \<^verbatim>\<open>pthread_join\<close> (with \<^verbatim>\<open>pthread_cancel\<close> after it) on a thread id that
  \<^verbatim>\<open>pthread_create\<close> never filled in: \<^verbatim>\<open>Au_Play\<close> sets the pointer before it creates
  the thread and rolls back through \<^verbatim>\<open>Au_Stop\<close> when the creation fails. Everything
  else is guarded by the code.\<close>

definition Au_Stop ::
  "env \<Rightarrow> bool \<Rightarrow> Au_Output option \<Rightarrow> fault + (bool \<times> Au_Output option \<times> call list)" where
  "Au_Stop e AuInitialized handle =
     (if \<not> AuInitialized then Inr (False, handle, [])
      else case handle of
        None \<Rightarrow> Inr (False, None, [])
      | Some pau \<Rightarrow>
          if sf_reader_thread pau \<and> \<not> sf_reader_semaphore pau then Inl NullPointer
          else if sf_reader_thread pau \<and> \<not> sf_reader_thread_storage pau
          then Inl InvalidThread
          else
            let c1 = (if pa_stream pau then [Call_Pa_StopStream] else []);
                pau1 = pau\<lparr>pa_callback := Ptr_PAEmptyCallback\<rparr>;
                c2 = (if sf_reader_thread pau1
                      then [Call_sem_post, Call_pthread_join] @
                           (if pthread_join_ok e then [] else [Call_pthread_cancel])
                      else []);
                pau2 = (if sf_reader_thread pau1
                        then pau1\<lparr>sf_reader_should_exit := True,
                                  sf_reader_semaphore_storage :=
                                    Suc (sf_reader_semaphore_storage pau1),
                                  sf_reader_thread_storage := False,
                                  sf_reader_thread := False\<rparr>
                        else pau1);
                c3 = (if sf_reader_semaphore pau2 then [Call_sem_destroy] else []);
                pau3 = pau2\<lparr>sf_reader_semaphore := False\<rparr>;
                c4 = (if sf_buffer pau3 then [Call_PaUtil_FlushRingBuffer] else []);
                pau4 = (if sf_buffer pau3
                        then pau3\<lparr>sf_buffer_storage :=
                                    PaUtil_FlushRingBuffer (sf_buffer_storage pau3),
                                  sf_buffer := False\<rparr>
                        else pau3);
                c5 = (if sf_buffer_data pau4 \<noteq> None then [Call_free_sf_buffer_data] else []);
                pau5 = pau4\<lparr>sf_buffer_data := None\<rparr>;
                c6 = (if playback_time_mutex pau5 then [Call_pthread_mutex_destroy] else []);
                pau6 = pau5\<lparr>playback_time_mutex := False, playback_time := - 1,
                            playback_start_time := - 1, is_playing := False\<rparr>;
                c7 = (if sf_fd pau6 \<noteq> None then [Call_sf_close] else []);
                pau7 = pau6\<lparr>sf_fd := None\<rparr>
            in Inr (True, Some pau7, c1 @ c2 @ c3 @ c4 @ c5 @ c6 @ c7))"

text \<open>The body of the \<^verbatim>\<open>do { ... } while(0)\<close> of \<^verbatim>\<open>Au_Play\<close>: whether it reached
  \<^verbatim>\<open>return TRUE\<close>, the struct where it left the block, and the calls made. The
  thread pointer is set before \<^verbatim>\<open>pthread_create\<close> is called; the id it points to is
  that of a thread only if the call succeeded.\<close>

definition Au_Play_once :: "env \<Rightarrow> Au_Output \<Rightarrow> string \<Rightarrow> bool \<times> Au_Output \<times> call list" where
  "Au_Play_once e pau filename =
     (case sf_open e filename of
        None \<Rightarrow> (False, pau\<lparr>sf_fd := None\<rparr>, [Call_sf_open])
      | Some f \<Rightarrow>
          let pau1 = pau\<lparr>sf_fd := Some f\<rparr> in
          if sf_samplerate f \<noteq> sample_rate pau1 then (False, pau1, [Call_sf_open])
          else if sf_channels f \<noteq> 2 then (False, pau1, [Call_sf_open])
          else
            let pau2 = pau1\<lparr>is_playing := False, playback_frames := 0,
                            playback_time := - 1, playback_start_time := - 1,
                            playback_time_mutex := True\<rparr>;
                c2 = [Call_sf_open, Call_pthread_mutex_init]
            in if \<not> pthread_mutex_init_ok e then (False, pau2, c2)
               else (case malloc_sf_buffer_data e of
                 None \<Rightarrow> (False, pau2\<lparr>sf_buffer_data := None\<rparr>,
                           c2 @ [Call_malloc_sf_buffer_data])
               | Some mem \<Rightarrow>
                   (let pau3 = pau2\<lparr>sf_buffer_data :=
                                      Some (map mem [0..<PA_RING_BUFFERCOUNT]),
                                    sf_buffer := True\<rparr>;
                       c3 = c2 @ [Call_malloc_sf_buffer_data]
                   in (case PaUtil_InitializeRingBuffer PA_RING_BUFFERCOUNT of
                     None \<Rightarrow> (False, pau3, c3)
                   | Some rb \<Rightarrow>
                       (let pau4 = pau3\<lparr>sf_buffer_storage := rb,
                                        sf_reader_semaphore := True\<rparr>;
                           c4 = c3 @ [Call_sem_init]
                       in if \<not> sem_init_ok e then (False, pau4, c4)
                          else
                            let pau5 = pau4\<lparr>sf_reader_semaphore_storage := 1,
                                             sf_reader_should_exit := False,
                                             sf_reader_thread_storage := pthread_create_ok e,
                                             sf_reader_thread := True\<rparr>;
                                c5 = c4 @ [Call_pthread_create]
                            in if \<not> pthread_create_ok e then (False, pau5, c5)
                               else
                                 let pau6 = pau5\<lparr>pa_callback := Ptr_PAPlayCallback\<rparr>;
                                     c6 = c5 @ [Call_Pa_StartStream]
                                 in (Pa_StartStream_ok e, pau6, c6))))))"

definition Au_Play ::
  "env \<Rightarrow> bool \<Rightarrow> Au_Output option \<Rightarrow> string \<Rightarrow>
   fault + (bool \<times> Au_Output option \<times> call list)" where
  "Au_Play e AuInitialized handle filename =
     (if \<not> AuInitialized then Inr (False, handle, [])
      else case handle of
        None \<Rightarrow> Inr (False, None, [])
      | Some pau \<Rightarrow>
          if \<not> pa_stream pau then Inr (False, handle, [])
          else if sf_reader_thread pau then Inr (False, handle, [])
          else
            (case Au_Play_once e pau filename of
               (True, pau', cs) \<Rightarrow> Inr (True, Some pau', Call_Pa_StopStream # cs)
             | (False, pau', cs) \<Rightarrow>
                 (case Au_Stop e AuInitialized (Some pau') of
                    Inl x \<Rightarrow> Inl x
                  | Inr (r, h, cs') \<Rightarrow> Inr (False, h, Call_Pa_StopStream # cs @ cs'))))"

text \<open>\<^verbatim>\<open>pthread_mutex_lock\<close> may report failure; \<open>lock_ok\<close> says whether this call's
  attempt returned 0. Handing it a \<^verbatim>\<open>NULL\<close> mutex is undefined.\<close>

definition Au_IsPlaying :: "bool \<Rightarrow> bool \<Rightarrow> Au_Output option \<Rightarrow> fault + bool" where
  "Au_IsPlaying lock_ok AuInitialized handle =
     (if \<not> AuInitialized then Inr False
      else case handle of
        None \<Rightarrow> Inr False
      | Some pau \<Rightarrow>
          if \<not> playback_time_mutex pau then Inl NullPointer
          else if lock_ok then Inr (is_playing pau)
          else Inr False)"

definition Au_GetTimeInPlayback :: "bool \<Rightarrow> Au_Output option \<Rightarrow> real" where
  "Au_GetTimeInPlayback lock_ok handle =
     (case handle of
        None \<Rightarrow> - 1
      | Some pau \<Rightarrow>
          if \<not> playback_time_mutex pau then - 2
          else if lock_ok then playback_time pau - playback_start_time pau
          else - 3)"

section \<open>The playback callback\<close>

text \<open>The macro \<^verbatim>\<open>MARK_NOT_PLAYING\<close>: the flag is cleared only if the lock is taken.\<close>

definition MARK_NOT_PLAYING :: "bool \<Rightarrow> Au_Output \<Rightarrow> fault + Au_Output" where
  "MARK_NOT_PLAYING lock_ok pau =
     (if \<not> playback_time_mutex pau then Inl NullPointer
      else Inr (if lock_ok then pau\<lparr>is_playing := False\<rparr> else pau))"

text \<open>\<^verbatim>\<open>memcpy(output, pfr->data, n)\<close>: the first \<open>n\<close> bytes of the block. The int \<open>n\<close>
  becomes a \<^verbatim>\<open>size_t\<close>, so a negative \<open>n\<close> is a huge length; a length beyond
  \<^verbatim>\<open>sizeof(pfr->data)\<close> reads past the block.\<close>

definition memcpy_FRBuf :: "byte list \<Rightarrow> int \<Rightarrow> fault + byte list" where
  "memcpy_FRBuf src n =
     (if 0 \<le> n \<and> n \<le> FRBuf_data_bytes then Inr (take (nat n) src) else Inl OutOfBounds)"

text \<open>An early \<^verbatim>\<open>MARK_NOT_PLAYING; return paComplete;\<close>: nothing is written to the
  output buffer.\<close>

definition complete_not_playing ::
  "bool \<Rightarrow> Au_Output \<Rightarrow> fault + (PaStreamCallbackResult \<times> byte list option \<times> Au_Output)" where
  "complete_not_playing lock_ok pau =
     (case MARK_NOT_PLAYING lock_ok pau of
        Inl x \<Rightarrow> Inl x
      | Inr pau' \<Rightarrow> Inr (paComplete, None, pau'))"

text \<open>The sync block of the callback. \<open>None\<close> is its early \<^verbatim>\<open>return paComplete\<close>,
  taken when the blocking lock of the first block fails. \<open>sync_lock_ok\<close> is the outcome
  of the one lock attempt of the block: \<^verbatim>\<open>pthread_mutex_lock\<close> on the first block,
  \<^verbatim>\<open>pthread_mutex_trylock\<close> afterwards. The quotient is a division of doubles; the
  model's division agrees with it for a non-zero rate, which \<^verbatim>\<open>Au_New\<close> enforces.\<close>

definition PAPlayCallback_sync :: "bool \<Rightarrow> FRBuf \<Rightarrow> Au_Output \<Rightarrow> fault + Au_Output option" where
  "PAPlayCallback_sync sync_lock_ok pfr pau =
     (if \<not> playback_time_mutex pau then Inl NullPointer
      else if playback_start_time pau = - 1 then
        (if \<not> sync_lock_ok then Inr None
         else Inr (Some (pau\<lparr>playback_start_time := 0, playback_time := 0,
                             is_playing := True\<rparr>)))
      else if sync_lock_ok then
        Inr (Some (pau\<lparr>playback_time := real_of_int (pos_frames pfr) /
                                          real_of_int (sample_rate pau),
                        is_playing := True\<rparr>))
      else Inr (Some pau))"

text \<open>\<^verbatim>\<open>PAPlayCallback_\<close>: the result, what was written to the output buffer (\<open>None\<close>
  when the buffer was not touched) and the struct afterwards. \<open>mark_lock_ok\<close> is the
  outcome of the lock attempt inside \<^verbatim>\<open>MARK_NOT_PLAYING\<close>.\<close>

definition PAPlayCallback ::
  "nat \<Rightarrow> bool \<Rightarrow> bool \<Rightarrow> Au_Output \<Rightarrow>
   fault + (PaStreamCallbackResult \<times> byte list option \<times> Au_Output)" where
  "PAPlayCallback frameCount sync_lock_ok mark_lock_ok pau =
     (if \<not> sf_reader_semaphore pau then Inl NullPointer
      else
        let pau1 = pau\<lparr>sf_reader_semaphore_storage :=
                           Suc (sf_reader_semaphore_storage pau)\<rparr>
        in if int frameCount \<noteq> PA_BUFFER_FRAMECOUNT
           then complete_not_playing mark_lock_ok pau1
           else if \<not> sf_buffer pau1 then Inl NullPointer
           else if PaUtil_GetRingBufferReadAvailable (sf_buffer_storage pau1) \<le> 0
           then complete_not_playing mark_lock_ok pau1
           else
             (case PaUtil_GetRingBufferReadRegions (sf_buffer_storage pau1) 1 of
                (ok, data1, elems1) \<Rightarrow>
                  if ok \<le> 0 then complete_not_playing mark_lock_ok pau1
                  else if elems1 \<le> 0 then complete_not_playing mark_lock_ok pau1
                  else
                    (case sf_buffer_data pau1 of
                       None \<Rightarrow> Inl NullPointer
                     | Some slots \<Rightarrow>
                         if \<not> data1 < length slots then Inl OutOfBounds
                         else
                           (let pfr = slots ! data1 in
                            case PAPlayCallback_sync sync_lock_ok pfr pau1 of
                              Inl x \<Rightarrow> Inl x
                            | Inr None \<Rightarrow> Inr (paComplete, None, pau1)
                            | Inr (Some pau2) \<Rightarrow>
                                (case memcpy_FRBuf (data pfr) (bufferSizeBytes (Some pau2)) of
                                   Inl x \<Rightarrow> Inl x
                                 | Inr bytes \<Rightarrow>
                                     (let pau3 = pau2\<lparr>sf_buffer_storage :=
                                            PaUtil_AdvanceRingBufferReadIndex
                                              (sf_buffer_storage pau2) 1\<rparr>
                                      in if state pfr = PPPS_Stopped
                                         then (case MARK_NOT_PLAYING mark_lock_ok pau3 of
                                                 Inl x \<Rightarrow> Inl x
                                               | Inr pau4 \<Rightarrow> Inr (paComplete, Some bytes, pau4))
                                         else Inr (paContinue, Some bytes, pau3)))))))"

text \<open>\<^verbatim>\<open>PACallback_\<close>, the thunk the device calls, and \<^verbatim>\<open>PAEmptyCallback_\<close>.\<close>

definition PACallback ::
  "nat \<Rightarrow> bool \<Rightarrow> bool \<Rightarrow> Au_Output \<Rightarrow>
   fault + (PaStreamCallbackResult \<times> byte list option \<times> Au_Output)" where
  "PACallback frameCount sync_lock_ok mark_lock_ok pau =
     (case pa_callback pau of
        Ptr_NULL \<Rightarrow> Inl NullPointer
      | Ptr_PAEmptyCallback \<Rightarrow> Inr (paComplete, None, pau)
      | Ptr_PAPlayCallback \<Rightarrow> PAPlayCallback frameCount sync_lock_ok mark_lock_ok pau)"

section \<open>The file reader thread\<close>

text \<open>The thread either goes on or has returned; \<open>Reader_Exited c\<close> records the value
  the exit point assigned to the diagnostic counter \<^verbatim>\<open>AU_SFFR_Count\<close> (the counter's
  increments and bit flips on the other paths are not modelled). The entry checks of
  the macro \<^verbatim>\<open>POW\<close> return without touching the counter.\<close>

datatype reader_status = Reader_Running | Reader_Exited nat | Reader_Exited_POW

definition SFFileReader_entry :: "bool \<Rightarrow> Au_Output option \<Rightarrow> reader_status" where
  "SFFileReader_entry AuInitialized handle =
     (if \<not> AuInitialized then Reader_Exited_POW
      else case handle of
        None \<Rightarrow> Reader_Exited_POW
      | Some pau \<Rightarrow>
          if format pau = AUSF_CUSTOM then Reader_Exited 123000 else Reader_Running)"

text \<open>One pass of the body of the \<^verbatim>\<open>for\<close> loop: a block was published, the loop was
  left by \<^verbatim>\<open>break\<close>, or the thread returned.\<close>

datatype slot_outcome = Published Au_Output | Loop_Break Au_Output | Thread_Return nat Au_Output

text \<open>The three wired decode calls, \<^verbatim>\<open>sf_readf_float\<close>, \<^verbatim>\<open>sf_readf_int\<close> and
  \<^verbatim>\<open>sf_readf_short\<close>, followed by the code after the switch. \<open>code\<close> is the counter value
  of the short-read exit of the format. The decoder writes at the start of the block's
  data and leaves the rest as it was.\<close>

definition SFFileReader_read :: "nat \<Rightarrow> nat \<Rightarrow> Au_Output \<Rightarrow> fault + slot_outcome" where
  "SFFileReader_read code data1 pau =
     (case sf_fd pau of
        None \<Rightarrow> Inl NullPointer
      | Some f \<Rightarrow>
          (case sf_buffer_data pau of
             None \<Rightarrow> Inl NullPointer
           | Some slots \<Rightarrow>
               if \<not> data1 < length slots then Inl OutOfBounds
               else
                 (case sf_readf f of
                    ((frames_read, bytes), f') \<Rightarrow>
                      let pfr = slots ! data1;
                          pfr1 = pfr\<lparr>data := bytes @ drop (length bytes) (data pfr)\<rparr>;
                          pau1 = pau\<lparr>sf_fd := Some f',
                                     sf_buffer_data := Some (slots[data1 := pfr1])\<rparr>
                      in if frames_read > 0 \<and> int frames_read \<noteq> PA_BUFFER_FRAMECOUNT
                         then Inr (Thread_Return code pau1)
                         else
                           let pfr2 = pfr1\<lparr>pos_frames := playback_frames pau1,
                                           state := (if frames_read = 0 then PPPS_Stopped
                                                     else PPPS_Playing)\<rparr>
                           in Inr (Published
                                (pau1\<lparr>playback_frames :=
                                         playback_frames pau1 + int frames_read,
                                       sf_buffer_data := Some (slots[data1 := pfr2]),
                                       sf_buffer_storage :=
                                         PaUtil_AdvanceRingBufferWriteIndex
                                           (sf_buffer_storage pau1) 1\<rparr>)))))"

definition SFFileReader_slot :: "Au_Output \<Rightarrow> fault + slot_outcome" where
  "SFFileReader_slot pau =
     (if \<not> sf_buffer pau then Inl NullPointer
      else
        (case PaUtil_GetRingBufferWriteRegions (sf_buffer_storage pau) 1 of
           (ok, data1, elems1) \<Rightarrow>
             if ok \<le> 0 then Inr (Loop_Break pau)
             else if elems1 \<le> 0 then Inr (Loop_Break pau)
             else if format pau = AUSF_F32 then SFFileReader_read 123002 data1 pau
             else if format pau = AUSF_I32 then SFFileReader_read 123003 data1 pau
             else if format pau = AUSF_I24 then Inr (Thread_Return 123004 pau)
             else if format pau = AUSF_I16 then SFFileReader_read 123005 data1 pau
             else if format pau = AUSF_I8 then Inr (Thread_Return 123006 pau)
             else if format pau = AUSF_UI8 then Inr (Thread_Return 123007 pau)
             else Inr (Thread_Return 123008 pau)))"

text \<open>The \<^verbatim>\<open>for\<close> loop over the slots counted free when the thread woke up.\<close>

fun SFFileReader_fill :: "nat \<Rightarrow> Au_Output \<Rightarrow> fault + (reader_status \<times> Au_Output)" where
  "SFFileReader_fill 0 pau = Inr (Reader_Running, pau)"
| "SFFileReader_fill (Suc n) pau =
     (case SFFileReader_slot pau of
        Inl x \<Rightarrow> Inl x
      | Inr (Published pau') \<Rightarrow> SFFileReader_fill n pau'
      | Inr (Loop_Break pau') \<Rightarrow> Inr (Reader_Running, pau')
      | Inr (Thread_Return c pau') \<Rightarrow> Inr (Reader_Exited c, pau'))"

text \<open>One pass of the \<^verbatim>\<open>while(1)\<close> loop, from \<^verbatim>\<open>sem_wait\<close> on. With the semaphore at
  zero the thread stays blocked and nothing changes.\<close>

definition SFFileReader_wake :: "Au_Output \<Rightarrow> fault + (reader_status \<times> Au_Output)" where
  "SFFileReader_wake pau =
     (if \<not> sf_reader_semaphore pau then Inl NullPointer
      else if sf_reader_semaphore_storage pau = 0 then Inr (Reader_Running, pau)
      else
        let pau1 = pau\<lparr>sf_reader_semaphore_storage := sf_reader_semaphore_storage pau - 1\<rparr>
        in if sf_reader_should_exit pau1 then Inr (Reader_Exited 987654321, pau1)
           else if \<not> sf_buffer pau1 then Inl NullPointer
           else SFFileReader_fill
                  (nat (PaUtil_GetRingBufferWriteAvailable (sf_buffer_storage pau1))) pau1)"

section \<open>A playback session under a schedule\<close>

text \<open>The device thread and the reader thread run side by side. The model runs them
  under a schedule: a list of events, each a pass of the reader's main loop, a single
  pass of its \<^verbatim>\<open>for\<close> loop body, or one call of the device into \<^verbatim>\<open>PACallback_\<close> with its
  frame count and the outcomes of its two lock attempts. Every execution of the two
  threads publishes and consumes blocks in some such order.\<close>

record session =
  out :: Au_Output
  reader :: reader_status

datatype sched = Sched_Reader | Sched_Reader_Slot | Sched_Callback nat bool bool

text \<open>What a callback invocation shows: its result, the block it consumed (if the
  read cursor moved) and what it wrote to the output buffer.\<close>

type_synonym observation = "PaStreamCallbackResult \<times> FRBuf option \<times> byte list option"

definition consumed_block :: "Au_Output \<Rightarrow> Au_Output \<Rightarrow> FRBuf option" where
  "consumed_block pau pau' =
     (if readIndex (sf_buffer_storage pau') = readIndex (sf_buffer_storage pau) then None
      else case sf_buffer_data pau of
        None \<Rightarrow> None
      | Some slots \<Rightarrow>
          Some (slots ! (readIndex (sf_buffer_storage pau) mod
                         bufferSize (sf_buffer_storage pau))))"

definition sched_step :: "sched \<Rightarrow> session \<Rightarrow> fault + (observation option \<times> session)" where
  "sched_step ev s =
     (case ev of
        Sched_Reader \<Rightarrow>
          (if reader s \<noteq> Reader_Running then Inr (None, s)
           else case SFFileReader_wake (out s) of
             Inl x \<Rightarrow> Inl x
           | Inr (st, pau') \<Rightarrow> Inr (None, \<lparr>out = pau', reader = st\<rparr>))
      | Sched_Reader_Slot \<Rightarrow>
          (if reader s \<noteq> Reader_Running then Inr (None, s)
           else case SFFileReader_fill 1 (out s) of
             Inl x \<Rightarrow> Inl x
           | Inr (st, pau') \<Rightarrow> Inr (None, \<lparr>out = pau', reader = st\<rparr>))
      | Sched_Callback frameCount sync_lock_ok mark_lock_ok \<Rightarrow>
          (case PACallback frameCount sync_lock_ok mark_lock_ok (out s) of
             Inl x \<Rightarrow> Inl x
           | Inr (r, bytes, pau') \<Rightarrow>
               Inr (Some (r, consumed_block (out s) pau', bytes), s\<lparr>out := pau'\<rparr>)))"

text \<open>The run of a schedule: what each event showed and the session after it. A fault
  ends the run.\<close>

fun run :: "sched list \<Rightarrow> session \<Rightarrow> (observation option \<times> session) list" where
  "run [] s = []"
| "run (ev # evs) s =
     (case sched_step ev s of
        Inl x \<Rightarrow> []
      | Inr (ob, s') \<Rightarrow> (ob, s') # run evs s')"

definition observations :: "sched list \<Rightarrow> session \<Rightarrow> observation list" where
  "observations evs s = List.map_filter fst (run evs s)"

section \<open>Fixtures\<close>

text \<open>Concrete collaborators for the closed theorems below: a decoder handle with a
  given header and read script, an environment in which every resource request
  succeeds and \<^verbatim>\<open>sf_open\<close> answers the same for every name, and the session right
  after a successful \<^verbatim>\<open>Au_Play\<close>.\<close>

definition fixture_file :: "int \<Rightarrow> int \<Rightarrow> (nat \<times> byte list) list \<Rightarrow> SNDFILE" where
  "fixture_file rate chans reads =
     \<lparr>sf_samplerate = rate, sf_channels = chans, sf_reads = reads\<rparr>"

definition fixture_env :: "SNDFILE option \<Rightarrow> env" where
  "fixture_env file =
     \<lparr>sf_open = (\<lambda>name. file), malloc_Au_Output_ok = True,
      Pa_OpenDefaultStream_ok = (\<lambda>chans fmt rate. True),
      pthread_mutex_init_ok = True,
      malloc_sf_buffer_data =
        Some (\<lambda>i. \<lparr>state = PPPS_Playing, pos_frames = 0, data = []\<rparr>),
      sem_init_ok = True, pthread_create_ok = True, Pa_StartStream_ok = True,
      pthread_join_ok = True\<rparr>"


definition played :: "env \<Rightarrow> Au_Output option \<Rightarrow> string \<Rightarrow> Au_Output option" where
  "played e handle filename =
     (case Au_Play e True handle filename of
        Inl x \<Rightarrow> None
      | Inr (r, h, cs) \<Rightarrow> if r then h else None)"

section \<open>States the interface can reach\<close>

text \<open>The states of an output that the public interface, the device's calls into
  the callback and the reader thread can produce, starting from \<^verbatim>\<open>Au_New\<close> with the
  library initialised.\<close>

inductive reachable :: "Au_Output \<Rightarrow> bool" where
  reach_New: "Au_New e True fmt rate chans = (Some pau, cs) \<Longrightarrow> reachable pau"
| reach_Play: "reachable pau \<Longrightarrow> Au_Play e True (Some pau) filename = Inr (r, Some pau', cs)
     \<Longrightarrow> reachable pau'"
| reach_Stop: "reachable pau \<Longrightarrow> Au_Stop e True (Some pau) = Inr (r, Some pau', cs)
     \<Longrightarrow> reachable pau'"
| reach_Callback: "reachable pau \<Longrightarrow> PACallback frameCount l1 l2 pau = Inr (res, bytes, pau')
     \<Longrightarrow> reachable pau'"
| reach_Reader: "reachable pau \<Longrightarrow> SFFileReader_wake pau = Inr (st, pau')
     \<Longrightarrow> reachable pau'"
| reach_Reader_Slots: "reachable pau \<Longrightarrow> SFFileReader_fill n pau = Inr (st, pau')
     \<Longrightarrow> reachable pau'"

text \<open>The resource requests of \<^verbatim>\<open>Au_Play\<close> all succeed.\<close>

definition resources_ok :: "env \<Rightarrow> bool" where
  "resources_ok e =
     (pthread_mutex_init_ok e \<and> malloc_sf_buffer_data e \<noteq> None \<and> sem_init_ok e \<and>
      pthread_create_ok e \<and> Pa_StartStream_ok e)"

text \<open>The session as a successful \<^verbatim>\<open>Au_Play\<close> leaves it, and the output with no
  session, as \<^verbatim>\<open>Au_Stop\<close> leaves it.\<close>

definition fresh_session :: "Au_Output \<Rightarrow> bool" where
  "fresh_session pau =
     (pa_stream pau \<and> pa_callback pau = Ptr_PAPlayCallback \<and> sf_reader_thread pau \<and>
      sf_reader_thread_storage pau \<and> sf_reader_semaphore pau \<and> sf_reader_semaphore_storage pau = 1 \<and>
      \<not> sf_reader_should_exit pau \<and> sf_fd pau \<noteq> None \<and> sf_buffer pau \<and>
      sf_buffer_storage pau = \<lparr>bufferSize = 32, writeIndex = 0, readIndex = 0\<rparr> \<and>
      map_option length (sf_buffer_data pau) = Some 32 \<and>
      playback_time pau = - 1 \<and> playback_start_time pau = - 1 \<and> \<not> is_playing pau \<and>
      playback_time_mutex pau \<and> playback_frames pau = 0)"

definition no_session :: "Au_Output \<Rightarrow> bool" where
  "no_session pau =
     (pa_callback pau = Ptr_PAEmptyCallback \<and> \<not> sf_reader_thread pau \<and>
      \<not> sf_reader_semaphore pau \<and> \<not> sf_buffer pau \<and> sf_buffer_data pau = None \<and>
      \<not> playback_time_mutex pau \<and> playback_time pau = - 1 \<and>
      playback_start_time pau = - 1 \<and> \<not> is_playing pau \<and> sf_fd pau = None)"

text \<open>What every reachable state satisfies: the stream of \<^verbatim>\<open>Au_New\<close> is there, and the
  thread pointer is never set without the semaphore and a created thread behind it.\<close>

definition handle_inv :: "Au_Output \<Rightarrow> bool" where
  "handle_inv pau =
     (pa_stream pau \<and> (sf_reader_thread pau \<longrightarrow> sf_reader_semaphore pau) \<and>
      (sf_reader_thread pau \<longrightarrow> sf_reader_thread_storage pau))"

section \<open>Sessions and their queue\<close>

text \<open>An active session with a well-formed ring: the semaphore, the ring buffer and
  the time mutex exist, the ring memory has one slot per element, and the cursors are
  at most one capacity apart.\<close>

definition session_ok :: "Au_Output \<Rightarrow> bool" where
  "session_ok pau =
     (sf_reader_semaphore pau \<and> sf_buffer pau \<and> playback_time_mutex pau \<and>
      0 < bufferSize (sf_buffer_storage pau) \<and>
      readIndex (sf_buffer_storage pau) \<le> writeIndex (sf_buffer_storage pau) \<and>
      writeIndex (sf_buffer_storage pau) \<le>
        readIndex (sf_buffer_storage pau) + bufferSize (sf_buffer_storage pau) \<and>
      map_option length (sf_buffer_data pau) = Some (bufferSize (sf_buffer_storage pau)))"

text \<open>The blocks published and not yet consumed, oldest first.\<close>

definition ring_slots :: "Au_Output \<Rightarrow> FRBuf list" where
  "ring_slots pau = (case sf_buffer_data pau of None \<Rightarrow> [] | Some slots \<Rightarrow> slots)"

definition queued :: "Au_Output \<Rightarrow> FRBuf list" where
  "queued pau =
     map (\<lambda>i. ring_slots pau ! (i mod bufferSize (sf_buffer_storage pau)))
       [readIndex (sf_buffer_storage pau)..<writeIndex (sf_buffer_storage pau)]"

text \<open>The formats whose case of the reader's switch calls the decoder, each with the
  counter value of its short-read exit.\<close>

definition wired :: "Au_SampleFormat \<Rightarrow> nat option" where
  "wired fmt = (if fmt = AUSF_F32 then Some 123002 else if fmt = AUSF_I32 then Some 123003
     else if fmt = AUSF_I16 then Some 123005 else None)"

section \<open>Playing a file of full blocks\<close>

text \<open>The read script of a decoder that delivers the given blocks, 256 frames each, and
  then reports end of file.\<close>

definition full_blocks :: "byte list list \<Rightarrow> (nat \<times> byte list) list" where
  "full_blocks bs = map (\<lambda>b. (256, b)) bs"

text \<open>The \<open>j\<close>-th block the reader publishes for such a file: a \<^verbatim>\<open>Playing\<close> block at frame
  \<open>256 j\<close> that starts with the file's \<open>j\<close>-th block while the file lasts, a \<^verbatim>\<open>Stopped\<close>
  block at the file's length afterwards.\<close>

definition expected_block :: "byte list list \<Rightarrow> nat \<Rightarrow> FRBuf \<Rightarrow> bool" where
  "expected_block bs j b =
     (if j < length bs
      then state b = PPPS_Playing \<and> pos_frames b = 256 * int j \<and>
           take (length (bs ! j)) (data b) = bs ! j
      else state b = PPPS_Stopped \<and> pos_frames b = 256 * int (length bs))"

text \<open>A session that plays such a file: the decoder has delivered as many blocks as
  were published, the frame counter stands at their total, and the queue holds the
  expected blocks.\<close>

definition playing_inv :: "byte list list \<Rightarrow> Au_Output \<Rightarrow> bool" where
  "playing_inv bs pau =
     (session_ok pau \<and> wired (format pau) \<noteq> None \<and>
      map_option sf_reads (sf_fd pau) =
        Some (full_blocks (drop (writeIndex (sf_buffer_storage pau)) bs)) \<and>
      playback_frames pau = 256 * int (min (writeIndex (sf_buffer_storage pau)) (length bs)) \<and>
      (\<forall>k < length (queued pau).
         expected_block bs (readIndex (sf_buffer_storage pau) + k) (queued pau ! k)))"

text \<open>What the reader thread leaves alone.\<close>

definition reader_frame :: "Au_Output \<Rightarrow> Au_Output \<Rightarrow> bool" where
  "reader_frame pau pau' =
     (format pau' = format pau \<and> sample_rate pau' = sample_rate pau \<and>
      channels pau' = channels pau \<and> pa_stream pau' = pa_stream pau \<and>
      pa_callback pau' = pa_callback pau \<and> sf_reader_thread pau' = sf_reader_thread pau \<and>
      sf_reader_semaphore_storage pau' = sf_reader_semaphore_storage pau \<and>
      sf_reader_semaphore pau' = sf_reader_semaphore pau \<and>
      sf_reader_should_exit pau' = sf_reader_should_exit pau \<and>
      sf_buffer pau' = sf_buffer pau \<and> playback_time pau' = playback_time pau \<and>
      playback_start_time pau' = playback_start_time pau \<and>
      is_playing pau' = is_playing pau \<and>
      playback_time_mutex pau' = playback_time_mutex pau \<and>
      readIndex (sf_buffer_storage pau') = readIndex (sf_buffer_storage pau) \<and>
      bufferSize (sf_buffer_storage pau') = bufferSize (sf_buffer_storage pau))"

text \<open>The schedule in which the reader thread finishes a pass of its main loop before
  every call of the device into the callback; each call asks for 256 frames and comes
  with the outcomes of its two lock attempts.\<close>

definition refill_rounds :: "(bool \<times> bool) list \<Rightarrow> sched list" where
  "refill_rounds ls = concat (map (\<lambda>(l1, l2). [Sched_Reader, Sched_Callback 256 l1 l2]) ls)"

section \<open>The time state of a session\<close>

text \<open>What holds of the time state throughout a session: the frame positions of the
  queued blocks are in order, none negative and none beyond the reader's frame
  counter; and the current time, once initialised, is not negative and not later than
  any queued block or the frame counter, at the output's rate.\<close>

definition time_inv :: "Au_Output \<Rightarrow> bool" where
  "time_inv pau =
     (session_ok pau \<and> 0 < sample_rate pau \<and> 0 \<le> playback_frames pau \<and>
      sorted (map pos_frames (queued pau)) \<and>
      (\<forall>b \<in> set (queued pau). 0 \<le> pos_frames b \<and> pos_frames b \<le> playback_frames pau) \<and>
      (if playback_start_time pau = - 1 then playback_time pau = - 1
       else playback_start_time pau = 0 \<and> 0 \<le> playback_time pau \<and>
            playback_time pau \<le>
              real_of_int (playback_frames pau) / real_of_int (sample_rate pau) \<and>
            (\<forall>b \<in> set (queued pau).
               playback_time pau \<le>
                 real_of_int (pos_frames b) / real_of_int (sample_rate pau))))"

text \<open>A lower bound of the frame positions still to come: of the queued blocks and of
  the reader's frame counter. And what a schedule shows of the consumed blocks: their
  frame positions, in the order the callback took them.\<close>

definition frames_from :: "Au_FrameCount \<Rightarrow> Au_Output \<Rightarrow> bool" where
  "frames_from lb pau =
     (lb \<le> playback_frames pau \<and> (\<forall>b \<in> set (queued pau). lb \<le> pos_frames b))"

definition consumed_positions :: "sched list \<Rightarrow> session \<Rightarrow> Au_FrameCount list" where
  "consumed_positions evs s =
     map pos_frames (List.map_filter (\<lambda>(r, b, bytes). b) (observations evs s))"

section \<open>Facts about the helpers\<close>

named_theorems au_defs

lemmas [au_defs] =
  PA_MAX_CHANNELS_def PA_BUFFER_FRAMECOUNT_def PA_RING_BUFFERCOUNT_def
  AUSF_F32_def AUSF_I32_def AUSF_I24_def AUSF_I16_def AUSF_I8_def AUSF_UI8_def
  AUSF_CUSTOM_def FRBuf_data_bytes_def format_size_def pa_format_of_def
  zeroed_Au_Output_def Pa_OpenDefaultStream_def

lemmas [au_defs] =
  PaUtil_InitializeRingBuffer_def PaUtil_GetRingBufferReadAvailable_def
  PaUtil_GetRingBufferWriteAvailable_def PaUtil_GetRingBufferWriteRegions_def
  PaUtil_GetRingBufferReadRegions_def PaUtil_AdvanceRingBufferWriteIndex_def
  PaUtil_AdvanceRingBufferReadIndex_def PaUtil_FlushRingBuffer_def

lemmas [au_defs] = fixture_file_def fixture_env_def played_def

lemma is_pow2_32 [simp]: "is_pow2 32"
  by code_simp


lemmas life_defs = Au_New_def Au_Play_def Au_Play_once_def Au_Stop_def Au_Delete_def

lemma pa_format_of_Some: "pa_format_of fmt = Some x \<Longrightarrow> 0 \<le> fmt \<and> fmt \<le> 5"
  by (auto simp: au_defs split: if_splits)



lemma Au_New_Some:
  assumes "Au_New e ini fmt rate chans = (Some pau, cs)"
  shows "ini \<and> 0 \<le> fmt \<and> fmt \<le> 5 \<and> 1 \<le> rate \<and> 0 < chans \<and> format pau = fmt \<and>
    sample_rate pau = rate \<and> channels pau = chans \<and> pa_stream pau \<and>
    \<not> sf_reader_thread pau \<and> \<not> sf_reader_semaphore pau \<and> \<not> playback_time_mutex pau \<and>
    \<not> sf_buffer pau \<and> sf_buffer_data pau = None \<and> sf_fd pau = None \<and>
    pa_callback pau = Ptr_PAEmptyCallback \<and>
    cs = [Call_malloc_Au_Output, Call_Pa_OpenDefaultStream]"
  using assms
  by (auto simp: Au_New_def Au_Delete_def zeroed_Au_Output_def Pa_OpenDefaultStream_def
      Let_def split: if_splits option.splits dest: pa_format_of_Some)




section \<open>Facts about the lifecycle\<close>

lemma Au_Stop_result:
  assumes "Au_Stop e True (Some pau) = Inr (r, h, cs)"
  shows "r \<and> (\<exists>pau'. h = Some pau' \<and> no_session pau' \<and> pa_stream pau' = pa_stream pau \<and>
     format pau' = format pau \<and> sample_rate pau' = sample_rate pau \<and> channels pau' = channels pau)"
  using assms by (auto simp: Au_Stop_def Let_def no_session_def split: if_splits)

lemma Au_Stop_total:
  "\<not> (sf_reader_thread pau \<and> \<not> sf_reader_semaphore pau) \<Longrightarrow>
   \<not> (sf_reader_thread pau \<and> \<not> sf_reader_thread_storage pau) \<Longrightarrow>
   \<exists>pau' cs. Au_Stop e True (Some pau) = Inr (True, Some pau', cs)"
  by (simp add: Au_Stop_def Let_def)

lemma Au_Stop_no_session:
  "no_session pau \<Longrightarrow> Au_Stop e True (Some pau) =
     Inr (True, Some pau, if pa_stream pau then [Call_Pa_StopStream] else [])"
  by (simp add: Au_Stop_def Let_def no_session_def)

lemma Au_Play_once_True:
  assumes "Au_Play_once e pau name = (True, pau', cs)"
  shows "resources_ok e \<and> (\<exists>f. sf_open e name = Some f \<and> sf_samplerate f = sample_rate pau \<and> sf_channels f = 2 \<and> sf_fd pau' = Some f)
    \<and> pa_callback pau' = Ptr_PAPlayCallback \<and> sf_reader_thread pau' \<and>
      sf_reader_thread_storage pau' \<and>
      sf_reader_semaphore pau' \<and> sf_reader_semaphore_storage pau' = 1 \<and>
      \<not> sf_reader_should_exit pau' \<and> sf_buffer pau' \<and>
      sf_buffer_storage pau' = \<lparr>bufferSize = 32, writeIndex = 0, readIndex = 0\<rparr> \<and>
      (\<exists>slots. sf_buffer_data pau' = Some slots \<and> length slots = 32) \<and>
      playback_time pau' = - 1 \<and> playback_start_time pau' = - 1 \<and> \<not> is_playing pau' \<and>
      playback_time_mutex pau' \<and> playback_frames pau' = 0 \<and> pa_stream pau' = pa_stream pau \<and>
     format pau' = format pau \<and> sample_rate pau' = sample_rate pau \<and> channels pau' = channels pau"
  using assms
  by (auto simp: Au_Play_once_def Let_def resources_ok_def PaUtil_InitializeRingBuffer_def PA_RING_BUFFERCOUNT_def split: option.splits if_splits)

lemma Au_Play_once_ok:
  assumes "resources_ok e" "sf_open e name = Some f" "sf_samplerate f = sample_rate pau" "sf_channels f = 2"
  shows "\<exists>pau' cs. Au_Play_once e pau name = (True, pau', cs)"
  using assms
  by (auto simp: Au_Play_once_def Let_def resources_ok_def PaUtil_InitializeRingBuffer_def PA_RING_BUFFERCOUNT_def split: option.splits if_splits)

lemma Au_Play_once_False:
  assumes "Au_Play_once e pau name = (False, pau', cs)" "\<not> sf_reader_thread pau"
  shows "\<not> (sf_reader_thread pau' \<and> \<not> sf_reader_semaphore pau') \<and> pa_stream pau' = pa_stream pau \<and>
     format pau' = format pau \<and> sample_rate pau' = sample_rate pau \<and> channels pau' = channels pau"
  using assms
  by (auto simp: Au_Play_once_def Let_def split: option.splits if_splits)


text \<open>When \<^verbatim>\<open>pthread_create\<close> fails, the rollback of \<^verbatim>\<open>Au_Play\<close> joins a thread that was
  never created.\<close>

lemma Au_Play_failed_pthread_create:
  "map_sum id fst
     (Au_Play ((fixture_env (Some (fixture_file 44100 2 [])))\<lparr>pthread_create_ok := False\<rparr>) True
        (fst (Au_New (fixture_env None) True AUSF_F32 44100 2)) ''a.wav'') = Inl InvalidThread"
  by (simp add: life_defs au_defs)

lemma Au_Play_True:
  assumes "Au_Play e True (Some pau) name = Inr (True, h, cs)"
  shows "\<exists>pau' f. h = Some pau' \<and> fresh_session pau' \<and> format pau' = format pau \<and>
     sample_rate pau' = sample_rate pau \<and> channels pau' = channels pau \<and>
     sf_open e name = Some f \<and> sf_fd pau' = Some f \<and> sf_samplerate f = sample_rate pau \<and>
     sf_channels f = 2 \<and> resources_ok e \<and> pa_stream pau \<and> \<not> sf_reader_thread pau"
proof -
  from assms have p: "pa_stream pau" "\<not> sf_reader_thread pau"
    by (auto simp: Au_Play_def split: if_splits)
  obtain r pau1 cs1 where o: "Au_Play_once e pau name = (r, pau1, cs1)"
    by (cases "Au_Play_once e pau name") auto
  show ?thesis
  proof (cases r)
    case True
    with o have o': "Au_Play_once e pau name = (True, pau1, cs1)" by simp
    with assms p have "h = Some pau1" by (simp add: Au_Play_def)
    with Au_Play_once_True [OF o'] p show ?thesis
      by (auto simp: fresh_session_def)
  next
    case False
    with assms p o show ?thesis
      by (auto simp: Au_Play_def split: sum.splits)
  qed
qed

lemma Au_Play_ok:
  assumes "pa_stream pau" "\<not> sf_reader_thread pau" "resources_ok e"
    and "sf_open e name = Some f" "sf_samplerate f = sample_rate pau" "sf_channels f = 2"
  shows "\<exists>pau' cs. Au_Play e True (Some pau) name = Inr (True, Some pau', cs)"
proof -
  from Au_Play_once_ok [OF assms(3-6)] obtain pau' cs
    where "Au_Play_once e pau name = (True, pau', cs)" by blast
  with assms(1,2) show ?thesis by (simp add: Au_Play_def)
qed

lemma Au_Play_inv:
  assumes "Au_Play e True (Some pau) name = Inr (r, Some pau', cs)" "handle_inv pau"
  shows "handle_inv pau'"
proof -
  obtain r1 pau1 cs1 where o: "Au_Play_once e pau name = (r1, pau1, cs1)"
    by (cases "Au_Play_once e pau name") auto
  show ?thesis
  proof (cases "sf_reader_thread pau")
    case True
    with assms show ?thesis by (auto simp: Au_Play_def split: if_splits)
  next
    case nt: False
    show ?thesis
    proof (cases r1)
      case True
      with o have o': "Au_Play_once e pau name = (True, pau1, cs1)" by simp
      with assms nt have "pau' = pau1" by (auto simp: Au_Play_def handle_inv_def)
      with Au_Play_once_True [OF o'] assms(2) show ?thesis
        by (auto simp: handle_inv_def)
    next
      case False
      from False o have o': "Au_Play_once e pau name = (False, pau1, cs1)" by simp
      from Au_Play_once_False [OF o' nt] have
        a: "\<not> (sf_reader_thread pau1 \<and> \<not> sf_reader_semaphore pau1)" "pa_stream pau1 = pa_stream pau"
        by auto
      from assms o nt False obtain r2 cs2 where "Au_Stop e True (Some pau1) = Inr (r2, Some pau', cs2)"
        by (auto simp: Au_Play_def handle_inv_def split: sum.splits)
      from Au_Stop_result [OF this] a assms(2) show ?thesis
        by (auto simp: handle_inv_def no_session_def)
    qed
  qed
qed

lemmas callback_defs = PAPlayCallback_def complete_not_playing_def MARK_NOT_PLAYING_def
  PAPlayCallback_sync_def memcpy_FRBuf_def

lemma PAPlayCallback_unchanged:
  assumes "PAPlayCallback fc l1 l2 pau = Inr (res, bytes, pau')"
  shows "format pau' = format pau" "sample_rate pau' = sample_rate pau"
    "channels pau' = channels pau" "pa_stream pau' = pa_stream pau"
    "pa_callback pau' = pa_callback pau" "sf_reader_thread pau' = sf_reader_thread pau"
    "sf_reader_semaphore pau' = sf_reader_semaphore pau"
    "sf_reader_should_exit pau' = sf_reader_should_exit pau" "sf_fd pau' = sf_fd pau"
    "sf_buffer pau' = sf_buffer pau" "sf_buffer_data pau' = sf_buffer_data pau"
    "playback_time_mutex pau' = playback_time_mutex pau"
    "playback_frames pau' = playback_frames pau"
    "bufferSize (sf_buffer_storage pau') = bufferSize (sf_buffer_storage pau)"
    "writeIndex (sf_buffer_storage pau') = writeIndex (sf_buffer_storage pau)"
    "sf_reader_semaphore_storage pau' = Suc (sf_reader_semaphore_storage pau)"
    "sf_reader_thread_storage pau' = sf_reader_thread_storage pau"
  using assms
  by (auto simp: callback_defs Let_def PaUtil_AdvanceRingBufferReadIndex_def
      split: if_splits sum.splits prod.splits option.splits)

lemma PAPlayCallback_inv:
  assumes "PAPlayCallback fc l1 l2 pau = Inr (res, bytes, pau')"
  shows "pa_stream pau' = pa_stream pau \<and> sf_reader_thread pau' = sf_reader_thread pau \<and> sf_reader_semaphore pau' = sf_reader_semaphore pau \<and>
       sf_reader_thread_storage pau' = sf_reader_thread_storage pau"
  using PAPlayCallback_unchanged [OF assms] by simp

lemma SFFileReader_slot_inv:
  assumes "SFFileReader_slot pau = Inr oc"
  shows "case oc of Published pau' \<Rightarrow> pa_stream pau' = pa_stream pau \<and> sf_reader_thread pau' = sf_reader_thread pau \<and> sf_reader_semaphore pau' = sf_reader_semaphore pau \<and>
       sf_reader_thread_storage pau' = sf_reader_thread_storage pau
     | Loop_Break pau' \<Rightarrow> pau' = pau
     | Thread_Return c pau' \<Rightarrow> pa_stream pau' = pa_stream pau \<and> sf_reader_thread pau' = sf_reader_thread pau \<and> sf_reader_semaphore pau' = sf_reader_semaphore pau \<and>
       sf_reader_thread_storage pau' = sf_reader_thread_storage pau"
  using assms
  by (auto simp: SFFileReader_slot_def SFFileReader_read_def Let_def
       split: if_splits sum.splits prod.splits option.splits)

lemma SFFileReader_fill_inv:
  "SFFileReader_fill n pau = Inr (st, pau') \<Longrightarrow>
   pa_stream pau' = pa_stream pau \<and> sf_reader_thread pau' = sf_reader_thread pau \<and> sf_reader_semaphore pau' = sf_reader_semaphore pau \<and>
       sf_reader_thread_storage pau' = sf_reader_thread_storage pau"
proof (induction n arbitrary: pau)
  case 0
  then show ?case by simp
next
  case (Suc n)
  then obtain oc where o: "SFFileReader_slot pau = Inr oc"
    by (auto split: sum.splits)
  show ?case
  proof (cases oc)
    case (Published p)
    with Suc.prems o have "SFFileReader_fill n p = Inr (st, pau')" by simp
    from Suc.IH [OF this] SFFileReader_slot_inv [OF o] Published show ?thesis by simp
  next
    case (Loop_Break p)
    with Suc.prems o SFFileReader_slot_inv [OF o] show ?thesis by auto
  next
    case (Thread_Return c p)
    with Suc.prems o SFFileReader_slot_inv [OF o] show ?thesis by auto
  qed
qed

lemma SFFileReader_wake_inv:
  "SFFileReader_wake pau = Inr (st, pau') \<Longrightarrow>
   pa_stream pau' = pa_stream pau \<and> sf_reader_thread pau' = sf_reader_thread pau \<and> sf_reader_semaphore pau' = sf_reader_semaphore pau \<and>
       sf_reader_thread_storage pau' = sf_reader_thread_storage pau"
  by (auto simp: SFFileReader_wake_def Let_def split: if_splits dest!: SFFileReader_fill_inv)

lemma reachable_handle_inv: "reachable pau \<Longrightarrow> handle_inv pau"
proof (induction rule: reachable.induct)
  case (reach_New e fmt rate chans pau cs)
  from Au_New_Some [OF this] show ?case by (simp add: handle_inv_def)
next
  case (reach_Play pau e filename r pau' cs)
  then show ?case by (auto intro: Au_Play_inv)
next
  case (reach_Stop pau e r pau' cs)
  from Au_Stop_result [OF reach_Stop(2)] reach_Stop(3) show ?case
    by (auto simp: handle_inv_def no_session_def)
next
  case (reach_Callback pau frameCount l1 l2 res bytes pau')
  then show ?case
    by (auto simp: handle_inv_def PACallback_def split: callback_ptr.splits dest!: PAPlayCallback_inv)
next
  case (reach_Reader pau st pau')
  then show ?case by (auto simp: handle_inv_def dest!: SFFileReader_wake_inv)
next
  case (reach_Reader_Slots pau n st pau')
  then show ?case by (auto simp: handle_inv_def dest!: SFFileReader_fill_inv)
qed

text \<open>The sample rate of an output never changes after \<^verbatim>\<open>Au_New\<close> has checked it.\<close>

lemma Au_Play_sample_rate:
  assumes "Au_Play e True (Some pau) name = Inr (r, Some pau', cs)"
  shows "sample_rate pau' = sample_rate pau"
proof -
  obtain r1 pau1 cs1 where o: "Au_Play_once e pau name = (r1, pau1, cs1)"
    by (cases "Au_Play_once e pau name") auto
  show ?thesis
  proof (cases "pa_stream pau \<and> \<not> sf_reader_thread pau")
    case False
    with assms show ?thesis by (auto simp: Au_Play_def split: if_splits)
  next
    case ok: True
    show ?thesis
    proof (cases r1)
      case True
      with o have o': "Au_Play_once e pau name = (True, pau1, cs1)" by simp
      with assms ok have "pau' = pau1" by (auto simp: Au_Play_def)
      with Au_Play_once_True [OF o'] show ?thesis by simp
    next
      case False
      with o have o': "Au_Play_once e pau name = (False, pau1, cs1)" by simp
      from ok have "\<not> sf_reader_thread pau" by simp
      from Au_Play_once_False [OF o' this] have a: "sample_rate pau1 = sample_rate pau" by simp
      from assms o ok False obtain r2 cs2 where
        "Au_Stop e True (Some pau1) = Inr (r2, Some pau', cs2)"
        by (auto simp: Au_Play_def split: sum.splits)
      from Au_Stop_result [OF this] a show ?thesis by auto
    qed
  qed
qed

lemma SFFileReader_slot_sample_rate:
  assumes "SFFileReader_slot pau = Inr oc"
  shows "case oc of Published pau' \<Rightarrow> sample_rate pau' = sample_rate pau
     | Loop_Break pau' \<Rightarrow> pau' = pau
     | Thread_Return c pau' \<Rightarrow> sample_rate pau' = sample_rate pau"
  using assms
  by (auto simp: SFFileReader_slot_def SFFileReader_read_def Let_def
       split: if_splits sum.splits prod.splits option.splits)

lemma SFFileReader_fill_sample_rate:
  "SFFileReader_fill n pau = Inr (st, pau') \<Longrightarrow> sample_rate pau' = sample_rate pau"
proof (induction n arbitrary: pau)
  case 0
  then show ?case by simp
next
  case (Suc n)
  then obtain oc where o: "SFFileReader_slot pau = Inr oc"
    by (auto split: sum.splits)
  show ?case
  proof (cases oc)
    case (Published p)
    with Suc.prems o have "SFFileReader_fill n p = Inr (st, pau')" by simp
    from Suc.IH [OF this] SFFileReader_slot_sample_rate [OF o] Published show ?thesis by simp
  next
    case (Loop_Break p)
    with Suc.prems o SFFileReader_slot_sample_rate [OF o] show ?thesis by auto
  next
    case (Thread_Return c p)
    with Suc.prems o SFFileReader_slot_sample_rate [OF o] show ?thesis by auto
  qed
qed

lemma SFFileReader_wake_sample_rate:
  "SFFileReader_wake pau = Inr (st, pau') \<Longrightarrow> sample_rate pau' = sample_rate pau"
  by (auto simp: SFFileReader_wake_def Let_def split: if_splits
      dest!: SFFileReader_fill_sample_rate)

lemma reachable_sample_rate: "reachable pau \<Longrightarrow> 1 \<le> sample_rate pau"
proof (induction rule: reachable.induct)
  case (reach_New e fmt rate chans pau cs)
  from Au_New_Some [OF this] show ?case by simp
next
  case (reach_Play pau e filename r pau' cs)
  from Au_Play_sample_rate [OF reach_Play(2)] reach_Play(3) show ?case by simp
next
  case (reach_Stop pau e r pau' cs)
  from Au_Stop_result [OF reach_Stop(2)] reach_Stop(3) show ?case by auto
next
  case (reach_Callback pau frameCount l1 l2 res bytes pau')
  then show ?case
    by (auto simp: PACallback_def split: callback_ptr.splits
        dest!: PAPlayCallback_unchanged(2))
next
  case (reach_Reader pau st pau')
  then show ?case by (auto dest!: SFFileReader_wake_sample_rate)
next
  case (reach_Reader_Slots pau n st pau')
  then show ?case by (auto dest!: SFFileReader_fill_sample_rate)
qed

section \<open>Facts about the callback and the reader\<close>

lemma PAPlayCallback_session:
  assumes "session_ok pau" "sf_buffer_data pau = Some slots"
  shows "PAPlayCallback fc l1 l2 pau =
    (let rb = sf_buffer_storage pau;
         pau1 = pau\<lparr>sf_reader_semaphore_storage := Suc (sf_reader_semaphore_storage pau)\<rparr>
     in if int fc \<noteq> 256 \<or> writeIndex rb = readIndex rb
        then Inr (paComplete, None, if l2 then pau1\<lparr>is_playing := False\<rparr> else pau1)
        else if playback_start_time pau = - 1 \<and> \<not> l1 then Inr (paComplete, None, pau1)
        else
          let pfr = slots ! (readIndex rb mod bufferSize rb);
              pau2 = (if playback_start_time pau = - 1
                      then pau1\<lparr>playback_start_time := 0, playback_time := 0, is_playing := True\<rparr>
                      else if l1
                      then pau1\<lparr>playback_time := real_of_int (pos_frames pfr) /
                                                   real_of_int (sample_rate pau),
                                is_playing := True\<rparr>
                      else pau1);
              n = bufferSizeBytes (Some pau)
          in if n < 0 \<or> 2048 < n then Inl OutOfBounds
             else
               let pau3 = pau2\<lparr>sf_buffer_storage := rb\<lparr>readIndex := Suc (readIndex rb)\<rparr>\<rparr>
               in if state pfr = PPPS_Stopped
                  then Inr (paComplete, Some (take (nat n) (data pfr)),
                            if l2 then pau3\<lparr>is_playing := False\<rparr> else pau3)
                  else Inr (paContinue, Some (take (nat n) (data pfr)), pau3))"
proof -
  from assms have a: "sf_reader_semaphore pau" "sf_buffer pau" "playback_time_mutex pau"
    "0 < bufferSize (sf_buffer_storage pau)"
    "readIndex (sf_buffer_storage pau) \<le> writeIndex (sf_buffer_storage pau)"
    "length slots = bufferSize (sf_buffer_storage pau)"
    by (auto simp: session_ok_def)
  have m: "readIndex (sf_buffer_storage pau) mod bufferSize (sf_buffer_storage pau) < bufferSize (sf_buffer_storage pau)"
    using a(4) by simp
  show ?thesis
    using a m assms(2)
    by (auto simp: callback_defs Let_def au_defs bufferSizeBytes_def split: option.splits)
qed


lemma SFFileReader_slot_wired:
  assumes "session_ok pau" "sf_buffer_data pau = Some slots" "sf_fd pau = Some f"
    and "writeIndex (sf_buffer_storage pau) <
         readIndex (sf_buffer_storage pau) + bufferSize (sf_buffer_storage pau)"
    and "wired (format pau) = Some code"
  shows "SFFileReader_slot pau =
    (let rb = sf_buffer_storage pau;
         k = writeIndex rb mod bufferSize rb;
         fr = fst (fst (sf_readf f)); bytes = snd (fst (sf_readf f));
         d = bytes @ drop (length bytes) (data (slots ! k))
     in if 0 < fr \<and> fr \<noteq> 256
        then Inr (Thread_Return code
               (pau\<lparr>sf_fd := Some (snd (sf_readf f)),
                    sf_buffer_data := Some (slots[k := (slots ! k)\<lparr>data := d\<rparr>])\<rparr>))
        else Inr (Published
               (pau\<lparr>sf_fd := Some (snd (sf_readf f)),
                    playback_frames := playback_frames pau + int fr,
                    sf_buffer_data := Some (slots[k := (slots ! k)
                       \<lparr>data := d, pos_frames := playback_frames pau,
                        state := (if fr = 0 then PPPS_Stopped else PPPS_Playing)\<rparr>]),
                    sf_buffer_storage := rb\<lparr>writeIndex := Suc (writeIndex rb)\<rparr>\<rparr>)))"
proof -
  from assms have a: "sf_buffer pau"
    "0 < bufferSize (sf_buffer_storage pau)"
    "readIndex (sf_buffer_storage pau) \<le> writeIndex (sf_buffer_storage pau)"
    "length slots = bufferSize (sf_buffer_storage pau)"
    by (auto simp: session_ok_def)
  have m: "writeIndex (sf_buffer_storage pau) mod bufferSize (sf_buffer_storage pau) < bufferSize (sf_buffer_storage pau)"
    using a(2) by simp
  obtain fr bytes f' where r: "sf_readf f = ((fr, bytes), f')"
    by (metis surj_pair)
  have rd: "SFFileReader_read code (writeIndex (sf_buffer_storage pau) mod bufferSize (sf_buffer_storage pau)) pau = 
    (let rb = sf_buffer_storage pau;
         k = writeIndex rb mod bufferSize rb;
         d = bytes @ drop (length bytes) (data (slots ! k))
     in if 0 < fr \<and> fr \<noteq> 256
        then Inr (Thread_Return code
               (pau\<lparr>sf_fd := Some f',
                    sf_buffer_data := Some (slots[k := (slots ! k)\<lparr>data := d\<rparr>])\<rparr>))
        else Inr (Published
               (pau\<lparr>sf_fd := Some f',
                    playback_frames := playback_frames pau + int fr,
                    sf_buffer_data := Some (slots[k := (slots ! k)
                       \<lparr>data := d, pos_frames := playback_frames pau,
                        state := (if fr = 0 then PPPS_Stopped else PPPS_Playing)\<rparr>]),
                    sf_buffer_storage := rb\<lparr>writeIndex := Suc (writeIndex rb)\<rparr>\<rparr>)))"
    using a m assms(2,3) r
    by (simp add: SFFileReader_read_def Let_def au_defs)
  have e: "min 1 (int (bufferSize (sf_buffer_storage pau)) -
        int (writeIndex (sf_buffer_storage pau) mod bufferSize (sf_buffer_storage pau))) = 1"
    using m by linarith
  have "SFFileReader_slot pau = SFFileReader_read code (writeIndex (sf_buffer_storage pau) mod bufferSize (sf_buffer_storage pau)) pau"
    using a e assms(4,5)
    by (auto simp: SFFileReader_slot_def wired_def au_defs Let_def split: if_splits)
  with rd r show ?thesis by (simp add: Let_def)
qed

lemma SFFileReader_slot_unwired:
  assumes "session_ok pau"
    and "writeIndex (sf_buffer_storage pau) <
         readIndex (sf_buffer_storage pau) + bufferSize (sf_buffer_storage pau)"
    and "wired (format pau) = None"
  shows "SFFileReader_slot pau = Inr (Thread_Return
     (if format pau = AUSF_I24 then 123004 else if format pau = AUSF_I8 then 123006
      else if format pau = AUSF_UI8 then 123007 else 123008) pau)"
proof -
  from assms have a: "sf_buffer pau"
    "0 < bufferSize (sf_buffer_storage pau)"
    "readIndex (sf_buffer_storage pau) \<le> writeIndex (sf_buffer_storage pau)"
    by (auto simp: session_ok_def)
  have m: "writeIndex (sf_buffer_storage pau) mod bufferSize (sf_buffer_storage pau) < bufferSize (sf_buffer_storage pau)"
    using a(2) by simp
  have e: "min 1 (int (bufferSize (sf_buffer_storage pau)) -
        int (writeIndex (sf_buffer_storage pau) mod bufferSize (sf_buffer_storage pau))) = 1"
    using m by linarith
  show ?thesis
    using a e assms(2,3)
    by (auto simp: SFFileReader_slot_def wired_def au_defs Let_def split: if_splits)
qed

lemma mod_neq_in_window:
  fixes n :: nat
  assumes "i < w" "w < i + n"
  shows "i mod n \<noteq> w mod n"
proof
  assume e: "i mod n = w mod n"
  then have "(w - i) mod n = 0"
    using assms(1) by (metis less_imp_le_nat mod_0 mod_eq_dvd_iff_nat mod_eq_0_iff_dvd)
  moreover have "0 < w - i" "w - i < n" using assms by simp_all
  ultimately show False by simp
qed

lemma queue_publish:
  fixes slots :: "'a list"
  assumes "length slots = n" "r \<le> w" "w < r + n"
  shows "map (\<lambda>i. slots[w mod n := b] ! (i mod n)) [r..<Suc w] =
         map (\<lambda>i. slots ! (i mod n)) [r..<w] @ [b]"
proof -
  have n: "0 < n" using assms by simp
  have "slots[w mod n := b] ! (i mod n) = slots ! (i mod n)" if "i \<in> set [r..<w]" for i
  proof -
    from that assms have "i < w" "w < i + n" by simp_all
    then have "i mod n \<noteq> w mod n" by (rule mod_neq_in_window)
    then show ?thesis by simp
  qed
  then have "map (\<lambda>i. slots[w mod n := b] ! (i mod n)) [r..<w] = map (\<lambda>i. slots ! (i mod n)) [r..<w]"
    by (intro map_cong) simp_all
  moreover have "slots[w mod n := b] ! (w mod n) = b" using assms n by simp
  ultimately show ?thesis using assms(2) by simp
qed

lemma queue_keep:
  fixes slots :: "'a list"
  assumes "length slots = n" "r \<le> w" "w < r + n"
  shows "map (\<lambda>i. slots[w mod n := b] ! (i mod n)) [r..<w] =
         map (\<lambda>i. slots ! (i mod n)) [r..<w]"
  using queue_publish [OF assms, of b] assms(2) by simp

section \<open>Facts about playing a file of full blocks\<close>

lemma reader_frame_refl [simp]: "reader_frame pau pau"
  by (simp add: reader_frame_def)

lemma reader_frame_trans: "reader_frame p q \<Longrightarrow> reader_frame q r \<Longrightarrow> reader_frame p r"
  by (simp add: reader_frame_def)

lemma sf_readf_full:
  assumes "sf_reads f = full_blocks (drop w bs)"
  shows "sf_readf f = (if w < length bs
           then ((256, bs ! w), f\<lparr>sf_reads := full_blocks (drop (Suc w) bs)\<rparr>)
           else ((0, []), f))"
proof (cases "w < length bs")
  case True
  then have "drop w bs = bs ! w # drop (Suc w) bs" by (simp add: Cons_nth_drop_Suc)
  with assms True show ?thesis by (simp add: sf_readf_def full_blocks_def)
next
  case False
  with assms show ?thesis by (simp add: sf_readf_def full_blocks_def)
qed

lemma queued_publish:
  assumes "session_ok pau" "sf_buffer_data pau = Some slots"
    and "writeIndex (sf_buffer_storage pau) <
         readIndex (sf_buffer_storage pau) + bufferSize (sf_buffer_storage pau)"
  shows "queued (pau\<lparr>sf_fd := fd, playback_frames := pf,
            sf_buffer_data := Some (slots[writeIndex (sf_buffer_storage pau) mod
                                         bufferSize (sf_buffer_storage pau) := b]),
            sf_buffer_storage := (sf_buffer_storage pau)
               \<lparr>writeIndex := Suc (writeIndex (sf_buffer_storage pau))\<rparr>\<rparr>) =
         queued pau @ [b]"
proof -
  from assms have a: "length slots = bufferSize (sf_buffer_storage pau)"
    "readIndex (sf_buffer_storage pau) \<le> writeIndex (sf_buffer_storage pau)"
    by (auto simp: session_ok_def)
  from queue_publish [OF a assms(3), of b] assms(2) show ?thesis
    by (simp add: queued_def ring_slots_def)
qed

lemma slot_playing:
  assumes "playing_inv bs pau"
    and "writeIndex (sf_buffer_storage pau) <
         readIndex (sf_buffer_storage pau) + bufferSize (sf_buffer_storage pau)"
  shows "\<exists>pau'. SFFileReader_slot pau = Inr (Published pau') \<and> playing_inv bs pau' \<and>
     reader_frame pau pau' \<and>
     writeIndex (sf_buffer_storage pau') = Suc (writeIndex (sf_buffer_storage pau))"
proof -
  let ?rb = "sf_buffer_storage pau"
  let ?w = "writeIndex ?rb" and ?r = "readIndex ?rb" and ?n = "bufferSize ?rb"
  from assms(1) obtain slots f code where
    ok: "session_ok pau" and sl: "sf_buffer_data pau = Some slots" and fd: "sf_fd pau = Some f"
    and wi: "wired (format pau) = Some code"
    and rd: "sf_reads f = full_blocks (drop ?w bs)"
    and pf: "playback_frames pau = 256 * int (min ?w (length bs))"
    and q: "\<forall>k < length (queued pau). expected_block bs (?r + k) (queued pau ! k)"
    by (auto simp: playing_inv_def session_ok_def)
  from ok sl have len: "length slots = ?n" "?r \<le> ?w" "0 < ?n"
    by (auto simp: session_ok_def)
  have ql: "length (queued pau) = ?w - ?r" by (simp add: queued_def)
  let ?k = "?w mod ?n"
  let ?fr = "fst (fst (sf_readf f))" and ?bytes = "snd (fst (sf_readf f))"
  let ?b = "(slots ! ?k)\<lparr>data := ?bytes @ drop (length ?bytes) (data (slots ! ?k)),
              pos_frames := playback_frames pau,
              state := (if ?fr = 0 then PPPS_Stopped else PPPS_Playing)\<rparr>"
  let ?pau' = "pau\<lparr>sf_fd := Some (snd (sf_readf f)),
                    playback_frames := playback_frames pau + int ?fr,
                    sf_buffer_data := Some (slots[?k := ?b]),
                    sf_buffer_storage := ?rb\<lparr>writeIndex := Suc ?w\<rparr>\<rparr>"
  have fr: "?fr = (if ?w < length bs then 256 else 0)"
    by (simp add: sf_readf_full [OF rd])
  have s: "SFFileReader_slot pau = Inr (Published ?pau')"
    using SFFileReader_slot_wired [OF ok sl fd assms(2) wi] fr by (simp add: Let_def)
  have qp: "queued ?pau' = queued pau @ [?b]"
    by (rule queued_publish [OF ok sl assms(2)])
  have eb: "expected_block bs ?w ?b"
    using pf by (simp add: expected_block_def sf_readf_full [OF rd])
  have ok': "session_ok ?pau'"
    using ok sl assms(2) by (auto simp: session_ok_def)
  have q': "\<forall>k < length (queued ?pau'). expected_block bs (?r + k) (queued ?pau' ! k)"
  proof (intro allI impI)
    fix k assume "k < length (queued ?pau')"
    then have "k < ?w - ?r \<or> k = ?w - ?r" using qp ql by auto
    then show "expected_block bs (?r + k) (queued ?pau' ! k)"
    proof
      assume "k < ?w - ?r"
      with q ql qp show ?thesis by (simp add: nth_append)
    next
      assume "k = ?w - ?r"
      with eb ql qp len show ?thesis by (simp add: nth_append)
    qed
  qed
  have rd': "sf_reads (snd (sf_readf f)) = full_blocks (drop (Suc ?w) bs)"
    using rd by (simp add: sf_readf_full [OF rd])
  have pf': "playback_frames ?pau' = 256 * int (min (Suc ?w) (length bs))"
    using pf fr by (auto simp: min_def)
  have "playing_inv bs ?pau'"
    unfolding playing_inv_def using ok' wi rd' pf' q' by simp
  moreover have "reader_frame pau ?pau'" by (simp add: reader_frame_def)
  ultimately show ?thesis using s by simp
qed

lemma fill_playing:
  assumes "playing_inv bs pau"
    and "writeIndex (sf_buffer_storage pau) + n \<le>
         readIndex (sf_buffer_storage pau) + bufferSize (sf_buffer_storage pau)"
  shows "\<exists>pau'. SFFileReader_fill n pau = Inr (Reader_Running, pau') \<and> playing_inv bs pau' \<and>
     reader_frame pau pau' \<and>
     writeIndex (sf_buffer_storage pau') = writeIndex (sf_buffer_storage pau) + n"
  using assms
proof (induction n arbitrary: pau)
  case 0
  then show ?case by simp
next
  case (Suc n)
  from Suc.prems(2) have "writeIndex (sf_buffer_storage pau) <
         readIndex (sf_buffer_storage pau) + bufferSize (sf_buffer_storage pau)" by simp
  from slot_playing [OF Suc.prems(1) this] obtain p where
    p: "SFFileReader_slot pau = Inr (Published p)" "playing_inv bs p" "reader_frame pau p"
      "writeIndex (sf_buffer_storage p) = Suc (writeIndex (sf_buffer_storage pau))"
    by blast
  from p(3,4) Suc.prems(2) have "writeIndex (sf_buffer_storage p) + n \<le>
         readIndex (sf_buffer_storage p) + bufferSize (sf_buffer_storage p)"
    by (simp add: reader_frame_def)
  from Suc.IH [OF p(2) this] obtain pau' where
    "SFFileReader_fill n p = Inr (Reader_Running, pau')" "playing_inv bs pau'"
    "reader_frame p pau'"
    "writeIndex (sf_buffer_storage pau') = writeIndex (sf_buffer_storage p) + n"
    by blast
  with p show ?case by (auto intro: reader_frame_trans)
qed

lemma queued_upd [simp]:
  "queued (pau\<lparr>sf_reader_semaphore_storage := x\<rparr>) = queued pau"
  "queued (pau\<lparr>playback_start_time := t\<rparr>) = queued pau"
  "queued (pau\<lparr>playback_time := t\<rparr>) = queued pau"
  "queued (pau\<lparr>is_playing := p\<rparr>) = queued pau"
  by (simp_all add: queued_def ring_slots_def)

lemma session_ok_upd [simp]:
  "session_ok (pau\<lparr>sf_reader_semaphore_storage := x\<rparr>) = session_ok pau"
  "session_ok (pau\<lparr>playback_start_time := t\<rparr>) = session_ok pau"
  "session_ok (pau\<lparr>playback_time := t\<rparr>) = session_ok pau"
  "session_ok (pau\<lparr>is_playing := p\<rparr>) = session_ok pau"
  by (simp_all add: session_ok_def)

lemma playing_inv_upd [simp]:
  "playing_inv bs (pau\<lparr>sf_reader_semaphore_storage := x\<rparr>) = playing_inv bs pau"
  "playing_inv bs (pau\<lparr>playback_start_time := t\<rparr>) = playing_inv bs pau"
  "playing_inv bs (pau\<lparr>playback_time := t\<rparr>) = playing_inv bs pau"
  "playing_inv bs (pau\<lparr>is_playing := p\<rparr>) = playing_inv bs pau"
  by (simp_all add: playing_inv_def)

lemma wake_playing:
  assumes "playing_inv bs pau" "0 < sf_reader_semaphore_storage pau"
    "\<not> sf_reader_should_exit pau"
  shows "\<exists>pau'. SFFileReader_wake pau = Inr (Reader_Running, pau') \<and> playing_inv bs pau' \<and>
     reader_frame (pau\<lparr>sf_reader_semaphore_storage := sf_reader_semaphore_storage pau - 1\<rparr>) pau' \<and>
     writeIndex (sf_buffer_storage pau') =
       readIndex (sf_buffer_storage pau) + bufferSize (sf_buffer_storage pau)"
proof -
  let ?p = "pau\<lparr>sf_reader_semaphore_storage := sf_reader_semaphore_storage pau - 1\<rparr>"
  let ?rb = "sf_buffer_storage pau"
  from assms(1) have ok: "sf_reader_semaphore pau" "sf_buffer pau"
    "readIndex ?rb \<le> writeIndex ?rb" "writeIndex ?rb \<le> readIndex ?rb + bufferSize ?rb"
    by (auto simp: playing_inv_def session_ok_def)
  let ?n = "readIndex ?rb + bufferSize ?rb - writeIndex ?rb"
  have n: "nat (PaUtil_GetRingBufferWriteAvailable ?rb) = ?n"
    using ok by (simp add: au_defs)
  have i: "playing_inv bs ?p" using assms(1) by simp
  have "writeIndex (sf_buffer_storage ?p) + ?n \<le>
         readIndex (sf_buffer_storage ?p) + bufferSize (sf_buffer_storage ?p)"
    using ok by simp
  from fill_playing [OF i this] obtain pau' where
    f: "SFFileReader_fill ?n ?p = Inr (Reader_Running, pau')" "playing_inv bs pau'"
    "reader_frame ?p pau'"
    "writeIndex (sf_buffer_storage pau') = writeIndex (sf_buffer_storage ?p) + ?n"
    by blast
  have "SFFileReader_wake pau = SFFileReader_fill ?n ?p"
    using assms(2,3) ok n by (simp add: SFFileReader_wake_def Let_def)
  with f ok show ?thesis by simp
qed

lemma queued_hd:
  assumes "session_ok pau" "sf_buffer_data pau = Some slots"
    and "readIndex (sf_buffer_storage pau) < writeIndex (sf_buffer_storage pau)"
  shows "queued pau = slots ! (readIndex (sf_buffer_storage pau) mod
                               bufferSize (sf_buffer_storage pau)) #
           queued (pau\<lparr>sf_buffer_storage := (sf_buffer_storage pau)
               \<lparr>readIndex := Suc (readIndex (sf_buffer_storage pau))\<rparr>\<rparr>)"
  using assms by (simp add: queued_def ring_slots_def upt_conv_Cons)

lemma playing_inv_cong:
  assumes "sf_reader_semaphore p' = sf_reader_semaphore p" "sf_buffer p' = sf_buffer p"
    "playback_time_mutex p' = playback_time_mutex p"
    "sf_buffer_storage p' = sf_buffer_storage p" "sf_buffer_data p' = sf_buffer_data p"
    "sf_fd p' = sf_fd p" "playback_frames p' = playback_frames p" "format p' = format p"
  shows "playing_inv bs p' = playing_inv bs p"
  using assms by (simp add: playing_inv_def session_ok_def queued_def ring_slots_def)

lemma bufferSizeBytes_cong:
  "format p' = format p \<Longrightarrow> channels p' = channels p \<Longrightarrow>
   bufferSizeBytes (Some p') = bufferSizeBytes (Some p)"
  by (simp add: bufferSizeBytes_def split: option.splits)

lemma callback_playing:
  assumes inv: "playing_inv bs pau"
    and ne: "readIndex (sf_buffer_storage pau) < writeIndex (sf_buffer_storage pau)"
    and lock: "playback_start_time pau = - 1 \<longrightarrow> l1"
    and n: "0 \<le> bufferSizeBytes (Some pau)" "bufferSizeBytes (Some pau) \<le> 2048"
  shows "\<exists>pau' b. PAPlayCallback 256 l1 l2 pau =
       Inr (if readIndex (sf_buffer_storage pau) < length bs then paContinue else paComplete,
            Some (take (nat (bufferSizeBytes (Some pau))) (data b)), pau') \<and>
     consumed_block pau pau' = Some b \<and>
     expected_block bs (readIndex (sf_buffer_storage pau)) b \<and>
     playing_inv bs pau' \<and> playback_start_time pau' \<noteq> - 1 \<and>
     readIndex (sf_buffer_storage pau') = Suc (readIndex (sf_buffer_storage pau)) \<and>
     sf_reader_semaphore_storage pau' = Suc (sf_reader_semaphore_storage pau) \<and>
     sf_reader_should_exit pau' = sf_reader_should_exit pau \<and>
     pa_callback pau' = pa_callback pau \<and>
     bufferSizeBytes (Some pau') = bufferSizeBytes (Some pau)"
proof -
  let ?rb = "sf_buffer_storage pau"
  let ?r = "readIndex ?rb"
  from inv obtain slots where ok: "session_ok pau" and sl: "sf_buffer_data pau = Some slots"
    and q: "\<forall>k < length (queued pau). expected_block bs (?r + k) (queued pau ! k)"
    by (auto simp: playing_inv_def session_ok_def)
  let ?b = "slots ! (?r mod bufferSize ?rb)"
  let ?adv = "pau\<lparr>sf_buffer_storage := ?rb\<lparr>readIndex := Suc ?r\<rparr>\<rparr>"
  let ?res = "if ?r < length bs then paContinue else paComplete"
  let ?out = "Some (take (nat (bufferSizeBytes (Some pau))) (data ?b))"
  have qh: "queued pau = ?b # queued ?adv" by (rule queued_hd [OF ok sl ne])
  from q qh have eb: "expected_block bs ?r ?b"
    by (metis add.right_neutral length_greater_0_conv list.distinct(1) nth_Cons_0)
  have qt: "expected_block bs (Suc ?r + k) (queued ?adv ! k)" if "k < length (queued ?adv)" for k
  proof -
    from that qh have "Suc k < length (queued pau)" by simp
    with q have "expected_block bs (?r + Suc k) (queued pau ! Suc k)" by blast
    with qh show ?thesis by simp
  qed
  have st: "state ?b = PPPS_Stopped \<longleftrightarrow> \<not> ?r < length bs"
    using eb by (auto simp: expected_block_def)
  have inv_adv: "playing_inv bs ?adv"
    using inv ne qt by (auto simp: playing_inv_def session_ok_def)
  have "\<exists>pau'. PAPlayCallback 256 l1 l2 pau = Inr (?res, ?out, pau') \<and>
      readIndex (sf_buffer_storage pau') = Suc ?r \<and> playback_start_time pau' \<noteq> - 1"
    using ne lock n st by (auto simp: PAPlayCallback_session [OF ok sl] Let_def)
  then obtain pau' where c: "PAPlayCallback 256 l1 l2 pau = Inr (?res, ?out, pau')"
    and r': "readIndex (sf_buffer_storage pau') = Suc ?r"
    and s': "playback_start_time pau' \<noteq> - 1"
    by blast
  note u = PAPlayCallback_unchanged [OF c]
  have rb': "sf_buffer_storage pau' = sf_buffer_storage ?adv"
    using u(14,15) r' by (intro PaUtilRingBuffer.equality) simp_all
  have "playing_inv bs pau' = playing_inv bs ?adv"
    using u rb' by (intro playing_inv_cong) simp_all
  with inv_adv have i': "playing_inv bs pau'" by simp
  have cb: "consumed_block pau pau' = Some ?b"
    using r' sl by (simp add: consumed_block_def)
  have "bufferSizeBytes (Some pau') = bufferSizeBytes (Some pau)"
    using u by (intro bufferSizeBytes_cong) simp_all
  with c cb eb i' s' r' u(16,8,5) show ?thesis by blast
qed

lemma observations_Nil [simp]: "observations [] s = []"
  by (simp add: observations_def)

lemma observations_Cons:
  "observations (ev # evs) s =
     (case sched_step ev s of
        Inl x \<Rightarrow> []
      | Inr (ob, s') \<Rightarrow> (case ob of None \<Rightarrow> [] | Some v \<Rightarrow> [v]) @ observations evs s')"
  by (simp add: observations_def split: sum.splits option.splits)

lemma round_playing:
  assumes inv: "playing_inv bs (out s)" and rd: "reader s = Reader_Running"
    and cb: "pa_callback (out s) = Ptr_PAPlayCallback"
    and sem: "0 < sf_reader_semaphore_storage (out s)"
    and ex: "\<not> sf_reader_should_exit (out s)"
    and lock: "playback_start_time (out s) = - 1 \<longrightarrow> l1"
    and n: "0 \<le> bufferSizeBytes (Some (out s))" "bufferSizeBytes (Some (out s)) \<le> 2048"
  shows "\<exists>s' b. observations (Sched_Reader # Sched_Callback 256 l1 l2 # evs) s =
       (if readIndex (sf_buffer_storage (out s)) < length bs then paContinue else paComplete,
        Some b, Some (take (nat (bufferSizeBytes (Some (out s)))) (data b))) #
       observations evs s' \<and>
     expected_block bs (readIndex (sf_buffer_storage (out s))) b \<and>
     playing_inv bs (out s') \<and> reader s' = Reader_Running \<and>
     pa_callback (out s') = Ptr_PAPlayCallback \<and>
     0 < sf_reader_semaphore_storage (out s') \<and> \<not> sf_reader_should_exit (out s') \<and>
     playback_start_time (out s') \<noteq> - 1 \<and>
     readIndex (sf_buffer_storage (out s')) = Suc (readIndex (sf_buffer_storage (out s))) \<and>
     bufferSizeBytes (Some (out s')) = bufferSizeBytes (Some (out s)) \<and>
     (\<exists>s1 ob. run (Sched_Reader # Sched_Callback 256 l1 l2 # evs) s =
          (None, s1) # (Some ob, s') # run evs s' \<and>
        playback_start_time (out s1) = playback_start_time (out s))"
proof -
  let ?p = "out s"
  from wake_playing [OF inv sem ex] obtain p1 where
    w: "SFFileReader_wake ?p = Inr (Reader_Running, p1)" and i1: "playing_inv bs p1"
    and f1: "reader_frame (?p\<lparr>sf_reader_semaphore_storage := sf_reader_semaphore_storage ?p - 1\<rparr>) p1"
    and w1: "writeIndex (sf_buffer_storage p1) =
       readIndex (sf_buffer_storage ?p) + bufferSize (sf_buffer_storage ?p)"
    by blast
  from inv have sz: "0 < bufferSize (sf_buffer_storage ?p)"
    by (simp add: playing_inv_def session_ok_def)
  from f1 have k: "readIndex (sf_buffer_storage p1) = readIndex (sf_buffer_storage ?p)"
    "playback_start_time p1 = playback_start_time ?p" "pa_callback p1 = pa_callback ?p"
    "sf_reader_should_exit p1 = sf_reader_should_exit ?p"
    "format p1 = format ?p" "channels p1 = channels ?p"
    by (simp_all add: reader_frame_def)
  have b1: "bufferSizeBytes (Some p1) = bufferSizeBytes (Some ?p)"
    using k by (intro bufferSizeBytes_cong) simp_all
  have ne: "readIndex (sf_buffer_storage p1) < writeIndex (sf_buffer_storage p1)"
    using k w1 sz by simp
  from callback_playing [OF i1 ne, of l1 l2] lock n k b1 obtain p2 b where
    c: "PAPlayCallback 256 l1 l2 p1 =
       Inr (if readIndex (sf_buffer_storage ?p) < length bs then paContinue else paComplete,
            Some (take (nat (bufferSizeBytes (Some ?p))) (data b)), p2)"
    and c2: "consumed_block p1 p2 = Some b"
      "expected_block bs (readIndex (sf_buffer_storage ?p)) b"
      "playing_inv bs p2" "playback_start_time p2 \<noteq> - 1"
      "readIndex (sf_buffer_storage p2) = Suc (readIndex (sf_buffer_storage ?p))"
      "sf_reader_semaphore_storage p2 = Suc (sf_reader_semaphore_storage p1)"
      "sf_reader_should_exit p2 = sf_reader_should_exit p1"
      "pa_callback p2 = pa_callback p1"
      "bufferSizeBytes (Some p2) = bufferSizeBytes (Some ?p)"
    by auto
  let ?s1 = "\<lparr>out = p1, reader = Reader_Running\<rparr>"
  let ?s2 = "?s1\<lparr>out := p2\<rparr>"
  have st1: "sched_step Sched_Reader s = Inr (None, ?s1)"
    using rd w by (simp add: sched_step_def)
  have st2: "sched_step (Sched_Callback 256 l1 l2) ?s1 =
      Inr (Some (if readIndex (sf_buffer_storage ?p) < length bs then paContinue else paComplete,
                 Some b, Some (take (nat (bufferSizeBytes (Some ?p))) (data b))), ?s2)"
    using c c2(1) k(3) cb by (simp add: sched_step_def PACallback_def)
  have "observations (Sched_Reader # Sched_Callback 256 l1 l2 # evs) s =
       (if readIndex (sf_buffer_storage ?p) < length bs then paContinue else paComplete,
        Some b, Some (take (nat (bufferSizeBytes (Some ?p))) (data b))) # observations evs ?s2"
    by (simp add: observations_Cons st1 st2)
  moreover have "playing_inv bs (out ?s2)" "reader ?s2 = Reader_Running"
    "pa_callback (out ?s2) = Ptr_PAPlayCallback" "0 < sf_reader_semaphore_storage (out ?s2)"
    "\<not> sf_reader_should_exit (out ?s2)" "playback_start_time (out ?s2) \<noteq> - 1"
    "readIndex (sf_buffer_storage (out ?s2)) = Suc (readIndex (sf_buffer_storage ?p))"
    "bufferSizeBytes (Some (out ?s2)) = bufferSizeBytes (Some ?p)"
    using c2 k cb ex by simp_all
  moreover have "\<exists>s1 ob. run (Sched_Reader # Sched_Callback 256 l1 l2 # evs) s =
          (None, s1) # (Some ob, ?s2) # run evs ?s2 \<and>
        playback_start_time (out s1) = playback_start_time (out s)"
    using k(2) by (simp add: st1 st2)
  ultimately show ?thesis using c2(2) by blast
qed

lemma refill_rounds_Cons:
  "refill_rounds ((l1, l2) # ls) = Sched_Reader # Sched_Callback 256 l1 l2 # refill_rounds ls"
  by (simp add: refill_rounds_def)

lemma rounds_playing:
  assumes "playing_inv bs (out s)" "reader s = Reader_Running"
    "pa_callback (out s) = Ptr_PAPlayCallback"
    "0 < sf_reader_semaphore_storage (out s)" "\<not> sf_reader_should_exit (out s)"
    "playback_start_time (out s) = - 1 \<longrightarrow> ls \<noteq> [] \<longrightarrow> fst (hd ls)"
    "0 \<le> bufferSizeBytes (Some (out s))" "bufferSizeBytes (Some (out s)) \<le> 2048"
    "readIndex (sf_buffer_storage (out s)) = r" "bufferSizeBytes (Some (out s)) = n"
  shows "list_all2
     (\<lambda>ob j. \<exists>b. ob = (if j < length bs then paContinue else paComplete, Some b,
                        Some (take (nat n) (data b))) \<and> expected_block bs j b)
     (observations (refill_rounds ls) s) [r..<r + length ls]"
  using assms
proof (induction ls arbitrary: s r)
  case Nil
  then show ?case by (simp add: refill_rounds_def)
next
  case (Cons l ls)
  obtain l1 l2 where l: "l = (l1, l2)" by (cases l)
  from Cons.prems(6) l have lk: "playback_start_time (out s) = - 1 \<longrightarrow> l1" by simp
  from round_playing [OF Cons.prems(1-5) lk Cons.prems(7,8), where ?l2.0 = l2
      and evs = "refill_rounds ls"]
  obtain s' b where
    o: "observations (Sched_Reader # Sched_Callback 256 l1 l2 # refill_rounds ls) s =
       (if readIndex (sf_buffer_storage (out s)) < length bs then paContinue else paComplete,
        Some b, Some (take (nat (bufferSizeBytes (Some (out s)))) (data b))) #
       observations (refill_rounds ls) s'"
    and e: "expected_block bs (readIndex (sf_buffer_storage (out s))) b"
    and i: "playing_inv bs (out s')" "reader s' = Reader_Running"
      "pa_callback (out s') = Ptr_PAPlayCallback"
      "0 < sf_reader_semaphore_storage (out s')" "\<not> sf_reader_should_exit (out s')"
    and j: "playback_start_time (out s') \<noteq> - 1"
      "readIndex (sf_buffer_storage (out s')) = Suc (readIndex (sf_buffer_storage (out s)))"
      "bufferSizeBytes (Some (out s')) = bufferSizeBytes (Some (out s))"
    by blast
  have "list_all2
     (\<lambda>ob j. \<exists>b. ob = (if j < length bs then paContinue else paComplete, Some b,
                        Some (take (nat n) (data b))) \<and> expected_block bs j b)
     (observations (refill_rounds ls) s') [Suc r..<Suc r + length ls]"
    using i j Cons.prems(7-10) by (intro Cons.IH) simp_all
  moreover have "[r..<r + length (l # ls)] = r # [Suc r..<Suc r + length ls]"
    by (subst upt_rec) simp
  ultimately show ?case
    using o e l Cons.prems(9,10) by (simp add: refill_rounds_Cons)
qed

lemma channels_pos: "0 < (2::int)" "0 < (3::int)"
  by simp_all

lemma fixture_played:
  assumes "0 \<le> fmt" "fmt \<le> 5" and ch: "0 < ch"
  shows "\<exists>pau0 cs0 pau cs.
     Au_New (fixture_env None) True fmt 44100 ch = (Some pau0, cs0) \<and>
     format pau0 = fmt \<and> channels pau0 = ch \<and> sample_rate pau0 = 44100 \<and>
     Au_Play (fixture_env (Some (fixture_file 44100 2 rs))) True (Some pau0) name =
       Inr (True, Some pau, cs) \<and>
     played (fixture_env (Some (fixture_file 44100 2 rs)))
       (fst (Au_New (fixture_env None) True fmt 44100 ch)) name = Some pau \<and>
     reachable pau \<and> sample_rate pau = 44100 \<and> format pau = fmt \<and> channels pau = ch"
proof -
  from assms(1,2) have "fmt = 0 \<or> fmt = 1 \<or> fmt = 2 \<or> fmt = 3 \<or> fmt = 4 \<or> fmt = 5"
    by arith
  then obtain x where "pa_format_of fmt = Some x"
    by (auto simp: au_defs)
  then obtain pau0 cs0 where n: "Au_New (fixture_env None) True fmt 44100 ch = (Some pau0, cs0)"
    using ch by (simp add: Au_New_def Pa_OpenDefaultStream_def fixture_env_def)
  from Au_New_Some [OF n] have a: "pa_stream pau0" "\<not> sf_reader_thread pau0"
    "sample_rate pau0 = 44100" "format pau0 = fmt" "channels pau0 = ch"
    by simp_all
  have "\<exists>pau' cs. Au_Play (fixture_env (Some (fixture_file 44100 2 rs))) True (Some pau0) name =
      Inr (True, Some pau', cs)"
    using a by (intro Au_Play_ok [where f = "fixture_file 44100 2 rs"])
      (simp_all add: au_defs resources_ok_def)
  then obtain pau cs where p: "Au_Play (fixture_env (Some (fixture_file 44100 2 rs))) True
      (Some pau0) name = Inr (True, Some pau, cs)"
    by blast
  have "reachable pau" by (rule reach_Play [OF reach_New [OF n] p])
  moreover from Au_Play_True [OF p] a
  have "sample_rate pau = 44100" "format pau = fmt" "channels pau = ch" by auto
  ultimately show ?thesis using n p a by (simp add: played_def)
qed

lemma fresh_session_ok: "fresh_session pau \<Longrightarrow> session_ok pau"
  by (auto simp: fresh_session_def session_ok_def)

lemma fresh_playing_inv:
  assumes "fresh_session pau" "sf_fd pau = Some f" "sf_reads f = full_blocks bs"
    "wired (format pau) \<noteq> None"
  shows "playing_inv bs pau"
  using assms fresh_session_ok [OF assms(1)]
  by (auto simp: playing_inv_def fresh_session_def queued_def)

lemma list_all2_map_eq:
  "list_all2 P xs ys \<Longrightarrow> (\<And>x y. P x y \<Longrightarrow> f x = g y) \<Longrightarrow> map f xs = map g ys"
  by (induction rule: list_all2_induct) auto

lemma list_all2_butlast_upt:
  assumes "list_all2 P xs [0..<Suc k]"
  shows "list_all2 P (butlast xs) [0..<k]"
proof -
  from assms have l: "length xs = Suc k" by (auto dest: list_all2_lengthD)
  have "list_all2 P (take k xs) (take k [0..<Suc k])"
    using assms by (rule list_all2_takeI)
  moreover have "take k xs = butlast xs" using l by (simp add: butlast_conv_take)
  moreover have "take k [0..<Suc k] = [0..<k]" by (simp add: take_upt)
  ultimately show ?thesis by simp
qed

lemma wired_bufferSizeBytes:
  assumes "wired (format pau) \<noteq> None" "channels pau = 2"
  shows "0 \<le> bufferSizeBytes (Some pau) \<and> bufferSizeBytes (Some pau) \<le> 2048"
  using assms
  by (auto simp: wired_def bufferSizeBytes_def au_defs int32_def split: if_splits)

lemma PAPlayCallback_consumed_time:
  assumes "PAPlayCallback fc l1 l2 pau = Inr (res, Some bytes, pau')"
  shows "playback_time_mutex pau' \<and>
     (playback_start_time pau = - 1 \<longrightarrow> playback_start_time pau' = 0 \<and> playback_time pau' = 0) \<and>
     (playback_start_time pau \<noteq> - 1 \<longrightarrow> playback_start_time pau' = playback_start_time pau)"
  using assms
  by (auto simp: callback_defs Let_def PaUtil_AdvanceRingBufferReadIndex_def
      split: if_splits sum.splits prod.splits option.splits)

lemma wake_unwired:
  assumes "session_ok pau" "0 < sf_reader_semaphore_storage pau" "\<not> sf_reader_should_exit pau"
    and "writeIndex (sf_buffer_storage pau) <
         readIndex (sf_buffer_storage pau) + bufferSize (sf_buffer_storage pau)"
    and "wired (format pau) = None"
  shows "SFFileReader_wake pau =
     Inr (Reader_Exited
       (if format pau = AUSF_I24 then 123004 else if format pau = AUSF_I8 then 123006
        else if format pau = AUSF_UI8 then 123007 else 123008),
       pau\<lparr>sf_reader_semaphore_storage := sf_reader_semaphore_storage pau - 1\<rparr>)"
proof -
  let ?p = "pau\<lparr>sf_reader_semaphore_storage := sf_reader_semaphore_storage pau - 1\<rparr>"
  let ?rb = "sf_buffer_storage pau"
  from assms(1) have ok: "sf_reader_semaphore pau" "sf_buffer pau" "readIndex ?rb \<le> writeIndex ?rb"
    by (auto simp: session_ok_def)
  have "0 < nat (PaUtil_GetRingBufferWriteAvailable ?rb)"
    using assms(4) ok by (simp add: au_defs)
  then obtain m where m: "nat (PaUtil_GetRingBufferWriteAvailable ?rb) = Suc m"
    by (cases "nat (PaUtil_GetRingBufferWriteAvailable ?rb)") auto
  have s: "SFFileReader_slot ?p = Inr (Thread_Return
     (if format pau = AUSF_I24 then 123004 else if format pau = AUSF_I8 then 123006
      else if format pau = AUSF_UI8 then 123007 else 123008) ?p)"
    using SFFileReader_slot_unwired [of ?p] assms(1,4,5) by simp
  show ?thesis
    using assms(2,3) ok m s by (simp add: SFFileReader_wake_def Let_def)
qed

lemma callback_empty:
  assumes "session_ok pau"
    and "writeIndex (sf_buffer_storage pau) = readIndex (sf_buffer_storage pau)"
  shows "\<exists>pau'. PAPlayCallback fc l1 l2 pau = Inr (paComplete, None, pau') \<and>
     session_ok pau' \<and> sf_buffer_storage pau' = sf_buffer_storage pau \<and>
     pa_callback pau' = pa_callback pau \<and> consumed_block pau pau' = None"
proof -
  from assms(1) obtain slots where sl: "sf_buffer_data pau = Some slots"
    by (auto simp: session_ok_def)
  show ?thesis
    using assms by (auto simp: PAPlayCallback_session [OF assms(1) sl] Let_def consumed_block_def)
qed

lemma rounds_exited:
  assumes "session_ok (out s)"
    and "writeIndex (sf_buffer_storage (out s)) = readIndex (sf_buffer_storage (out s))"
    and "pa_callback (out s) = Ptr_PAPlayCallback" "reader s \<noteq> Reader_Running"
  shows "observations (refill_rounds ls) s = replicate (length ls) (paComplete, None, None)"
  using assms
proof (induction ls arbitrary: s)
  case Nil
  then show ?case by (simp add: refill_rounds_def)
next
  case (Cons l ls)
  obtain l1 l2 where l: "l = (l1, l2)" by (cases l)
  have st1: "sched_step Sched_Reader s = Inr (None, s)"
    using Cons.prems(4) by (simp add: sched_step_def)
  from callback_empty [OF Cons.prems(1,2), of 256 l1 l2] obtain p where
    c: "PAPlayCallback 256 l1 l2 (out s) = Inr (paComplete, None, p)" "session_ok p"
      "sf_buffer_storage p = sf_buffer_storage (out s)" "pa_callback p = pa_callback (out s)"
      "consumed_block (out s) p = None"
    by blast
  have st2: "sched_step (Sched_Callback 256 l1 l2) s =
      Inr (Some (paComplete, None, None), s\<lparr>out := p\<rparr>)"
    using c Cons.prems(3) by (simp add: sched_step_def PACallback_def)
  have "observations (refill_rounds ls) (s\<lparr>out := p\<rparr>) =
      replicate (length ls) (paComplete, None, None)"
    using c Cons.prems by (intro Cons.IH) simp_all
  then show ?case
    using l st1 st2 by (simp add: refill_rounds_Cons observations_Cons)
qed

lemma rounds_unwired:
  assumes fs: "fresh_session pau" and w: "wired (format pau) = None"
    and nc: "format pau \<noteq> AUSF_CUSTOM"
  shows "observations (refill_rounds ls) \<lparr>out = pau, reader = SFFileReader_entry True (Some pau)\<rparr> =
     replicate (length ls) (paComplete, None, None)"
proof (cases ls)
  case Nil
  then show ?thesis by (simp add: refill_rounds_def)
next
  case (Cons l ls')
  obtain l1 l2 where l: "l = (l1, l2)" by (cases l)
  let ?s = "\<lparr>out = pau, reader = SFFileReader_entry True (Some pau)\<rparr>"
  let ?p = "pau\<lparr>sf_reader_semaphore_storage := sf_reader_semaphore_storage pau - 1\<rparr>"
  have ok: "session_ok pau" by (rule fresh_session_ok [OF fs])
  from fs have k: "0 < sf_reader_semaphore_storage pau" "\<not> sf_reader_should_exit pau"
    "writeIndex (sf_buffer_storage pau) < readIndex (sf_buffer_storage pau) + bufferSize (sf_buffer_storage pau)"
    "writeIndex (sf_buffer_storage pau) = readIndex (sf_buffer_storage pau)"
    "pa_callback pau = Ptr_PAPlayCallback"
    by (simp_all add: fresh_session_def)
  have rr: "reader ?s = Reader_Running" using nc by (simp add: SFFileReader_entry_def)
  obtain c where st1: "sched_step Sched_Reader ?s = Inr (None, \<lparr>out = ?p, reader = Reader_Exited c\<rparr>)"
    using wake_unwired [OF ok k(1,2,3) w] rr by (simp add: sched_step_def)
  let ?s1 = "\<lparr>out = ?p, reader = Reader_Exited c\<rparr>"
  have "observations (refill_rounds (l # ls')) ?s1 =
      replicate (length (l # ls')) (paComplete, None, None)"
    using ok k by (intro rounds_exited) simp_all
  moreover have "observations (refill_rounds (l # ls')) ?s1 =
      observations (Sched_Callback 256 l1 l2 # refill_rounds ls') ?s1"
    using l by (simp add: refill_rounds_Cons observations_Cons sched_step_def)
  moreover have "observations (refill_rounds (l # ls')) ?s =
      observations (Sched_Callback 256 l1 l2 # refill_rounds ls') ?s1"
    using l st1 by (simp add: refill_rounds_Cons observations_Cons [of Sched_Reader])
  ultimately show ?thesis using Cons by simp
qed

lemma queued_cong:
  "sf_buffer_storage p' = sf_buffer_storage p \<Longrightarrow> sf_buffer_data p' = sf_buffer_data p \<Longrightarrow>
   queued p' = queued p"
  by (simp add: queued_def ring_slots_def)

lemma queued_Nil_iff:
  "session_ok pau \<Longrightarrow>
   queued pau = [] \<longleftrightarrow> writeIndex (sf_buffer_storage pau) = readIndex (sf_buffer_storage pau)"
  by (auto simp: queued_def session_ok_def)

lemma fixture_refilled:
  assumes w: "wired fmt \<noteq> None" and ch: "0 < ch"
  shows "\<exists>pau pau1.
     played (fixture_env (Some (fixture_file 44100 2 (full_blocks bs))))
       (fst (Au_New (fixture_env None) True fmt 44100 ch)) name = Some pau \<and>
     fresh_session pau \<and>
     SFFileReader_wake pau = Inr (Reader_Running, pau1) \<and> playing_inv bs pau1 \<and>
     readIndex (sf_buffer_storage pau1) = 0 \<and> writeIndex (sf_buffer_storage pau1) = 32 \<and>
     playback_start_time pau1 = - 1 \<and> playback_time pau1 = - 1 \<and> \<not> is_playing pau1 \<and>
     format pau1 = fmt \<and> channels pau1 = ch \<and> sample_rate pau1 = 44100 \<and> reachable pau1"
proof -
  let ?f = "fixture_file 44100 2 (full_blocks bs)"
  from w have "0 \<le> fmt" "fmt \<le> 5" by (auto simp: wired_def au_defs split: if_splits)
  from fixture_played [OF this ch, of "full_blocks bs" name]
  obtain pau0 pau cs where
    p: "Au_Play (fixture_env (Some ?f)) True (Some pau0) name = Inr (True, Some pau, cs)"
    and pl: "played (fixture_env (Some ?f))
       (fst (Au_New (fixture_env None) True fmt 44100 ch)) name = Some pau"
    and r: "reachable pau"
    and c: "sample_rate pau = 44100" "format pau = fmt" "channels pau = ch"
    by blast
  from Au_Play_True [OF p] have fs: "fresh_session pau" and fd: "sf_fd pau = Some ?f"
    by (auto simp: fixture_env_def)
  have "sf_reads ?f = full_blocks bs" by (simp add: fixture_file_def)
  from fresh_playing_inv [OF fs fd this] w c have inv: "playing_inv bs pau" by simp
  from fs have k: "0 < sf_reader_semaphore_storage pau" "\<not> sf_reader_should_exit pau"
    "readIndex (sf_buffer_storage pau) = 0" "bufferSize (sf_buffer_storage pau) = 32"
    "playback_start_time pau = - 1" "playback_time pau = - 1" "\<not> is_playing pau"
    by (simp_all add: fresh_session_def)
  from wake_playing [OF inv k(1,2)] obtain pau1 where
    wk: "SFFileReader_wake pau = Inr (Reader_Running, pau1)" "playing_inv bs pau1"
    "reader_frame (pau\<lparr>sf_reader_semaphore_storage := sf_reader_semaphore_storage pau - 1\<rparr>) pau1"
    "writeIndex (sf_buffer_storage pau1) =
       readIndex (sf_buffer_storage pau) + bufferSize (sf_buffer_storage pau)"
    by blast
  have "reachable pau1" by (rule reach_Reader [OF r wk(1)])
  with pl fs wk k c show ?thesis by (simp add: reader_frame_def)
qed

section \<open>Facts about the time state\<close>

lemma time_inv_reader:
  assumes inv: "time_inv p" and ok: "session_ok p'"
    and same: "sample_rate p' = sample_rate p" "playback_start_time p' = playback_start_time p"
      "playback_time p' = playback_time p"
    and fr: "playback_frames p \<le> playback_frames p'"
    and q: "queued p' = queued p \<or>
            (\<exists>b. queued p' = queued p @ [b] \<and> pos_frames b = playback_frames p)"
  shows "time_inv p'"
proof -
  from inv have r: "0 < real_of_int (sample_rate p)" by (simp add: time_inv_def)
  have d: "real_of_int (playback_frames p) / real_of_int (sample_rate p) \<le>
      real_of_int (playback_frames p') / real_of_int (sample_rate p)"
    using fr r by (simp add: divide_right_mono)
  from q show ?thesis
  proof
    assume "queued p' = queued p"
    with inv ok same fr d show ?thesis
      by (auto simp: time_inv_def)
  next
    assume "\<exists>b. queued p' = queued p @ [b] \<and> pos_frames b = playback_frames p"
    then obtain b where b: "queued p' = queued p @ [b]" "pos_frames b = playback_frames p"
      by blast
    have s: "sorted (map pos_frames (queued p'))"
      using inv b by (auto simp: time_inv_def sorted_append)
    from inv ok same fr d b s show ?thesis
      by (auto simp: time_inv_def)
  qed
qed

lemma SFFileReader_slot_full:
  assumes "session_ok pau"
    and "\<not> writeIndex (sf_buffer_storage pau) <
         readIndex (sf_buffer_storage pau) + bufferSize (sf_buffer_storage pau)"
  shows "SFFileReader_slot pau = Inr (Loop_Break pau)"
  using assms
  by (auto simp: SFFileReader_slot_def session_ok_def au_defs Let_def)

lemma SFFileReader_slot_no_decoder:
  assumes "session_ok pau" "wired (format pau) = Some code" "sf_fd pau = None"
    and "writeIndex (sf_buffer_storage pau) <
         readIndex (sf_buffer_storage pau) + bufferSize (sf_buffer_storage pau)"
  shows "SFFileReader_slot pau = Inl NullPointer"
proof -
  let ?rb = "sf_buffer_storage pau"
  from assms have a: "sf_buffer pau" "0 < bufferSize ?rb" "readIndex ?rb \<le> writeIndex ?rb"
    by (auto simp: session_ok_def)
  have m: "writeIndex ?rb mod bufferSize ?rb < bufferSize ?rb" using a(2) by simp
  have e: "min 1 (int (bufferSize ?rb) - int (writeIndex ?rb mod bufferSize ?rb)) = 1"
    using m by linarith
  show ?thesis
    using a e assms(2,3,4)
    by (auto simp: SFFileReader_slot_def SFFileReader_read_def wired_def au_defs Let_def
        split: if_splits)
qed

lemma queued_keep:
  assumes "session_ok pau" "sf_buffer_data pau = Some slots"
    and "writeIndex (sf_buffer_storage pau) <
         readIndex (sf_buffer_storage pau) + bufferSize (sf_buffer_storage pau)"
  shows "queued (pau\<lparr>sf_fd := fd,
            sf_buffer_data := Some (slots[writeIndex (sf_buffer_storage pau) mod
                                         bufferSize (sf_buffer_storage pau) := b])\<rparr>) =
         queued pau"
proof -
  from assms have a: "length slots = bufferSize (sf_buffer_storage pau)"
    "readIndex (sf_buffer_storage pau) \<le> writeIndex (sf_buffer_storage pau)"
    by (auto simp: session_ok_def)
  from queue_keep [OF a assms(3), of b] assms(2) show ?thesis
    by (simp add: queued_def ring_slots_def)
qed

lemma slot_time_inv:
  assumes inv: "time_inv pau" and s: "SFFileReader_slot pau = Inr oc"
  shows "\<exists>p. (oc = Published p \<or> oc = Loop_Break p \<or> (\<exists>c. oc = Thread_Return c p)) \<and>
     time_inv p \<and> playback_start_time p = playback_start_time pau \<and>
     playback_time p = playback_time pau \<and>
     playback_time_mutex p = playback_time_mutex pau \<and> pa_callback p = pa_callback pau"
proof -
  let ?rb = "sf_buffer_storage pau"
  let ?k = "writeIndex ?rb mod bufferSize ?rb"
  from inv have ok: "session_ok pau" by (simp add: time_inv_def)
  then obtain slots where sl: "sf_buffer_data pau = Some slots"
    by (auto simp: session_ok_def)
  show ?thesis
  proof (cases "writeIndex ?rb < readIndex ?rb + bufferSize ?rb")
    case False
    with SFFileReader_slot_full [OF ok] s inv show ?thesis by auto
  next
    case space: True
    show ?thesis
    proof (cases "wired (format pau)")
      case None
      with SFFileReader_slot_unwired [OF ok space] s inv show ?thesis by auto
    next
      case (Some code)
      show ?thesis
      proof (cases "sf_fd pau")
        case None
        with SFFileReader_slot_no_decoder [OF ok Some _ space] s show ?thesis by simp
      next
        case fd: (Some f)
        let ?fr = "fst (fst (sf_readf f))" and ?bytes = "snd (fst (sf_readf f))"
        let ?d = "?bytes @ drop (length ?bytes) (data (slots ! ?k))"
        let ?b1 = "(slots ! ?k)\<lparr>data := ?d\<rparr>"
        let ?b2 = "(slots ! ?k)\<lparr>data := ?d, pos_frames := playback_frames pau,
                     state := (if ?fr = 0 then PPPS_Stopped else PPPS_Playing)\<rparr>"
        let ?p1 = "pau\<lparr>sf_fd := Some (snd (sf_readf f)),
                      sf_buffer_data := Some (slots[?k := ?b1])\<rparr>"
        let ?p2 = "pau\<lparr>sf_fd := Some (snd (sf_readf f)),
                      playback_frames := playback_frames pau + int ?fr,
                      sf_buffer_data := Some (slots[?k := ?b2]),
                      sf_buffer_storage := ?rb\<lparr>writeIndex := Suc (writeIndex ?rb)\<rparr>\<rparr>"
        note e = SFFileReader_slot_wired [OF ok sl fd space Some]
        show ?thesis
        proof (cases "0 < ?fr \<and> ?fr \<noteq> 256")
          case True
          with e s have oc: "oc = Thread_Return code ?p1" by (simp add: Let_def)
          have q: "queued ?p1 = queued pau" by (rule queued_keep [OF ok sl space])
          have ok1: "session_ok ?p1" using ok sl by (auto simp: session_ok_def)
          have "time_inv ?p1"
            using q ok1 by (intro time_inv_reader [OF inv]) simp_all
          with oc show ?thesis by simp
        next
          case False
          with e s have oc: "oc = Published ?p2" by (simp add: Let_def)
          have q: "queued ?p2 = queued pau @ [?b2]" by (rule queued_publish [OF ok sl space])
          have ok2: "session_ok ?p2" using ok sl space by (auto simp: session_ok_def)
          have "time_inv ?p2"
            using q ok2 by (intro time_inv_reader [OF inv]) simp_all
          with oc show ?thesis by simp
        qed
      qed
    qed
  qed
qed

lemma fill_time_inv:
  assumes "time_inv pau" "SFFileReader_fill n pau = Inr (st, p)"
  shows "time_inv p \<and> playback_start_time p = playback_start_time pau \<and>
     playback_time p = playback_time pau \<and>
     playback_time_mutex p = playback_time_mutex pau \<and> pa_callback p = pa_callback pau"
  using assms
proof (induction n arbitrary: pau)
  case 0
  then show ?case by simp
next
  case (Suc n)
  from Suc.prems(2) obtain oc where o: "SFFileReader_slot pau = Inr oc"
    by (auto split: sum.splits)
  from slot_time_inv [OF Suc.prems(1) o] obtain q where
    q: "oc = Published q \<or> oc = Loop_Break q \<or> (\<exists>c. oc = Thread_Return c q)"
    "time_inv q" "playback_start_time q = playback_start_time pau"
    "playback_time q = playback_time pau"
    "playback_time_mutex q = playback_time_mutex pau" "pa_callback q = pa_callback pau"
    by blast
  from q(1) show ?case
  proof (elim disjE exE)
    assume "oc = Published q"
    with Suc.prems(2) o have "SFFileReader_fill n q = Inr (st, p)" by simp
    from Suc.IH [OF q(2) this] q show ?thesis by simp
  next
    assume "oc = Loop_Break q"
    with Suc.prems(2) o q show ?thesis by auto
  next
    fix c assume "oc = Thread_Return c q"
    with Suc.prems(2) o q show ?thesis by auto
  qed
qed

lemma time_inv_semaphore [simp]:
  "time_inv (pau\<lparr>sf_reader_semaphore_storage := x\<rparr>) = time_inv pau"
  by (simp add: time_inv_def)

lemma wake_time_inv:
  assumes "time_inv pau" "SFFileReader_wake pau = Inr (st, p)"
  shows "time_inv p \<and> playback_start_time p = playback_start_time pau \<and>
     playback_time p = playback_time pau \<and>
     playback_time_mutex p = playback_time_mutex pau \<and> pa_callback p = pa_callback pau"
proof -
  let ?q = "pau\<lparr>sf_reader_semaphore_storage := sf_reader_semaphore_storage pau - 1\<rparr>"
  from assms(2) consider "p = pau" | "p = ?q"
    | n where "SFFileReader_fill n ?q = Inr (st, p)"
    by (auto simp: SFFileReader_wake_def Let_def split: if_splits)
  then show ?thesis
  proof cases
    case 1
    with assms(1) show ?thesis by simp
  next
    case 2
    with assms(1) show ?thesis by simp
  next
    case 3
    have "time_inv ?q" using assms(1) by simp
    from fill_time_inv [OF this 3] show ?thesis by simp
  qed
qed

lemma callback_time_inv:
  assumes inv: "time_inv pau" and c: "PAPlayCallback fc l1 l2 pau = Inr (res, bytes, pau')"
  shows "time_inv pau' \<and>
     (playback_start_time pau \<noteq> - 1 \<longrightarrow>
        playback_start_time pau' \<noteq> - 1 \<and>
        playback_time pau - playback_start_time pau \<le>
          playback_time pau' - playback_start_time pau') \<and>
     playback_time_mutex pau' = playback_time_mutex pau \<and> pa_callback pau' = pa_callback pau"
proof -
  let ?rb = "sf_buffer_storage pau"
  let ?r = "readIndex ?rb"
  from inv have ok: "session_ok pau" and rate: "0 < real_of_int (sample_rate pau)"
    by (simp_all add: time_inv_def)
  then obtain slots where sl: "sf_buffer_data pau = Some slots"
    by (auto simp: session_ok_def)
  let ?b = "slots ! (?r mod bufferSize ?rb)"
  let ?adv = "pau\<lparr>sf_buffer_storage := ?rb\<lparr>readIndex := Suc ?r\<rparr>\<rparr>"
  note u = PAPlayCallback_unchanged [OF c]
  have cases: "(readIndex (sf_buffer_storage pau') = ?r \<and>
       playback_start_time pau' = playback_start_time pau \<and>
       playback_time pau' = playback_time pau) \<or>
     (?r < writeIndex ?rb \<and> readIndex (sf_buffer_storage pau') = Suc ?r \<and>
       (playback_start_time pau = - 1 \<and> playback_start_time pau' = 0 \<and>
          playback_time pau' = 0 \<or>
        playback_start_time pau \<noteq> - 1 \<and>
          playback_start_time pau' = playback_start_time pau \<and>
          (playback_time pau' = playback_time pau \<or>
           playback_time pau' =
             real_of_int (pos_frames ?b) / real_of_int (sample_rate pau))))"
    using c ok
    by (auto simp: PAPlayCallback_session [OF ok sl] Let_def session_ok_def split: if_splits)
  from cases show ?thesis
  proof (elim disjE conjE)
    assume a: "readIndex (sf_buffer_storage pau') = ?r"
      "playback_start_time pau' = playback_start_time pau"
      "playback_time pau' = playback_time pau"
    have rb: "sf_buffer_storage pau' = ?rb"
      using u(14,15) a(1) by (intro PaUtilRingBuffer.equality) simp_all
    have q: "queued pau' = queued pau" using rb u(11) by (rule queued_cong)
    have ok': "session_ok pau'" using ok u rb by (simp add: session_ok_def)
    have "time_inv pau'"
      using q ok' a u by (intro time_inv_reader [OF inv]) simp_all
    with a u show ?thesis by simp
  next
    assume ne: "?r < writeIndex ?rb" and r': "readIndex (sf_buffer_storage pau') = Suc ?r"
      and a: "playback_start_time pau = - 1" "playback_start_time pau' = 0"
        "playback_time pau' = 0"
    have rb: "sf_buffer_storage pau' = sf_buffer_storage ?adv"
      using u(14,15) r' by (intro PaUtilRingBuffer.equality) simp_all
    have qh: "queued pau = ?b # queued ?adv" by (rule queued_hd [OF ok sl ne])
    have q: "queued pau' = queued ?adv" using rb u(11) by (intro queued_cong) simp_all
    have ok': "session_ok pau'" using ok u rb ne by (simp add: session_ok_def)
    have "time_inv pau'"
      using inv ok' u a q qh rate by (auto simp: time_inv_def)
    with a u show ?thesis by simp
  next
    assume ne: "?r < writeIndex ?rb" and r': "readIndex (sf_buffer_storage pau') = Suc ?r"
      and a: "playback_start_time pau \<noteq> - 1" "playback_start_time pau' = playback_start_time pau"
        "playback_time pau' = playback_time pau"
    have rb: "sf_buffer_storage pau' = sf_buffer_storage ?adv"
      using u(14,15) r' by (intro PaUtilRingBuffer.equality) simp_all
    have qh: "queued pau = ?b # queued ?adv" by (rule queued_hd [OF ok sl ne])
    have q: "queued pau' = queued ?adv" using rb u(11) by (intro queued_cong) simp_all
    have ok': "session_ok pau'" using ok u rb ne by (simp add: session_ok_def)
    have "time_inv pau'"
      using inv ok' u a q qh rate by (auto simp: time_inv_def)
    with a u show ?thesis by simp
  next
    assume ne: "?r < writeIndex ?rb" and r': "readIndex (sf_buffer_storage pau') = Suc ?r"
      and a: "playback_start_time pau \<noteq> - 1" "playback_start_time pau' = playback_start_time pau"
        "playback_time pau' = real_of_int (pos_frames ?b) / real_of_int (sample_rate pau)"
    have rb: "sf_buffer_storage pau' = sf_buffer_storage ?adv"
      using u(14,15) r' by (intro PaUtilRingBuffer.equality) simp_all
    have qh: "queued pau = ?b # queued ?adv" by (rule queued_hd [OF ok sl ne])
    have q: "queued pau' = queued ?adv" using rb u(11) by (intro queued_cong) simp_all
    have ok': "session_ok pau'" using ok u rb ne by (simp add: session_ok_def)
    from inv a(1) qh have old: "playback_start_time pau = 0" "0 \<le> playback_time pau"
      "playback_time pau \<le> real_of_int (pos_frames ?b) / real_of_int (sample_rate pau)"
      "0 \<le> pos_frames ?b" "pos_frames ?b \<le> playback_frames pau"
      "sorted (map pos_frames (queued ?adv))"
      "\<forall>x \<in> set (queued ?adv). pos_frames ?b \<le> pos_frames x"
      by (auto simp: time_inv_def)
    have le1: "real_of_int (pos_frames ?b) / real_of_int (sample_rate pau) \<le>
        real_of_int (playback_frames pau) / real_of_int (sample_rate pau)"
      using old(5) rate by (simp add: divide_right_mono)
    have le2: "real_of_int (pos_frames ?b) / real_of_int (sample_rate pau) \<le>
        real_of_int (pos_frames x) / real_of_int (sample_rate pau)"
      if "x \<in> set (queued ?adv)" for x
      using old(7) that rate by (simp add: divide_right_mono)
    have "0 \<le> real_of_int (pos_frames ?b) / real_of_int (sample_rate pau)"
      using old(4) rate by simp
    then have "time_inv pau'"
      using inv ok' u a q qh old le1 le2 by (auto simp: time_inv_def)
    with a u old show ?thesis by simp
  qed
qed

lemma step_time_inv:
  assumes inv: "time_inv (out s)" and st: "sched_step ev s = Inr (ob, s')"
  shows "time_inv (out s') \<and>
     (playback_start_time (out s) \<noteq> - 1 \<longrightarrow>
        playback_start_time (out s') \<noteq> - 1 \<and>
        Au_GetTimeInPlayback True (Some (out s)) \<le> Au_GetTimeInPlayback True (Some (out s')))"
proof -
  from inv have m: "playback_time_mutex (out s)" by (simp add: time_inv_def session_ok_def)
  have g: "Au_GetTimeInPlayback True (Some p) = playback_time p - playback_start_time p"
    if "playback_time_mutex p" for p
    using that by (simp add: Au_GetTimeInPlayback_def)
  show ?thesis
  proof (cases ev)
    case Sched_Reader
    show ?thesis
    proof (cases "reader s = Reader_Running")
      case False
      with st Sched_Reader inv show ?thesis by (simp add: sched_step_def)
    next
      case True
      with st Sched_Reader obtain r p where w: "SFFileReader_wake (out s) = Inr (r, p)"
        and s': "s' = \<lparr>out = p, reader = r\<rparr>"
        by (auto simp: sched_step_def split: sum.splits)
      from wake_time_inv [OF inv w] s' m show ?thesis by (simp add: g)
    qed
  next
    case Sched_Reader_Slot
    show ?thesis
    proof (cases "reader s = Reader_Running")
      case False
      with st Sched_Reader_Slot inv show ?thesis by (simp add: sched_step_def)
    next
      case True
      with st Sched_Reader_Slot obtain r p where w: "SFFileReader_fill 1 (out s) = Inr (r, p)"
        and s': "s' = \<lparr>out = p, reader = r\<rparr>"
        by (auto simp: sched_step_def split: sum.splits)
      from fill_time_inv [OF inv w] s' m show ?thesis by (simp add: g)
    qed
  next
    case (Sched_Callback fc l1 l2)
    with st obtain res bytes p where c: "PACallback fc l1 l2 (out s) = Inr (res, bytes, p)"
      and s': "s' = s\<lparr>out := p\<rparr>"
      by (auto simp: sched_step_def split: sum.splits)
    show ?thesis
    proof (cases "pa_callback (out s) = Ptr_PAPlayCallback")
      case True
      with c have "PAPlayCallback fc l1 l2 (out s) = Inr (res, bytes, p)"
        by (simp add: PACallback_def)
      from callback_time_inv [OF inv this] s' m show ?thesis by (simp add: g)
    next
      case False
      with c have "p = out s" by (auto simp: PACallback_def split: callback_ptr.splits)
      with s' inv show ?thesis by simp
    qed
  qed
qed

lemma run_Cons_Inr:
  "sched_step ev s = Inr (ob, s') \<Longrightarrow> run (ev # evs) s = (ob, s') # run evs s'"
  by simp

lemma run_Cons_Inl: "sched_step ev s = Inl x \<Longrightarrow> run (ev # evs) s = []"
  by simp

lemma run_initialised:
  assumes "time_inv (out s)" "playback_start_time (out s) \<noteq> - 1"
  shows "sorted (map (\<lambda>(ob, s). Au_GetTimeInPlayback True (Some (out s))) (run evs s)) \<and>
     (\<forall>x \<in> set (run evs s).
        Au_GetTimeInPlayback True (Some (out s)) \<le>
        Au_GetTimeInPlayback True (Some (out (snd x))))"
  using assms
proof (induction evs arbitrary: s)
  case Nil
  then show ?case by simp
next
  case (Cons ev evs)
  let ?T = "\<lambda>s. Au_GetTimeInPlayback True (Some (out s))"
  show ?case
  proof (cases "sched_step ev s")
    case (Inl x)
    then show ?thesis by (simp only: run_Cons_Inl) simp
  next
    case (Inr y)
    obtain ob s' where y: "y = (ob, s')" by (cases y)
    with Inr have st: "sched_step ev s = Inr (ob, s')" by simp
    from step_time_inv [OF Cons.prems(1) st] Cons.prems(2)
    have i: "time_inv (out s')" "playback_start_time (out s') \<noteq> - 1" "?T s \<le> ?T s'"
      by simp_all
    from Cons.IH [OF i(1,2)]
    have so: "sorted (map (\<lambda>(ob, s). ?T s) (run evs s'))"
      and lb: "\<forall>x \<in> set (run evs s'). ?T s' \<le> ?T (snd x)"
      by simp_all
    have r: "run (ev # evs) s = (ob, s') # run evs s'" by (rule run_Cons_Inr [OF st])
    have 1: "sorted (map (\<lambda>(ob, s). ?T s) ((ob, s') # run evs s'))"
      using so lb by (auto simp: case_prod_unfold)
    have 2: "?T s \<le> ?T (snd x)" if "x \<in> set ((ob, s') # run evs s')" for x
    proof (cases "x = (ob, s')")
      case True
      with i(3) show ?thesis by simp
    next
      case False
      with that have "x \<in> set (run evs s')" by simp
      with lb have "?T s' \<le> ?T (snd x)" by blast
      with i(3) show ?thesis by (rule order_trans)
    qed
    from 1 2 show ?thesis unfolding r by blast
  qed
qed

lemma run_sorted_after_initialisation:
  assumes "time_inv (out s)"
  shows "sorted (map (\<lambda>(ob, s). Au_GetTimeInPlayback True (Some (out s)))
           (dropWhile (\<lambda>(ob, s). playback_start_time (out s) = - 1) (run evs s)))"
  using assms
proof (induction evs arbitrary: s)
  case Nil
  then show ?case by simp
next
  case (Cons ev evs)
  show ?case
  proof (cases "sched_step ev s")
    case (Inl x)
    then show ?thesis by (simp only: run_Cons_Inl) simp
  next
    case (Inr y)
    obtain ob s' where y: "y = (ob, s')" by (cases y)
    with Inr have st: "sched_step ev s = Inr (ob, s')" by simp
    from step_time_inv [OF Cons.prems(1) st] have i: "time_inv (out s')" by simp
    have r: "run (ev # evs) s = (ob, s') # run evs s'" by (rule run_Cons_Inr [OF st])
    show ?thesis
    proof (cases "playback_start_time (out s') = - 1")
      case True
      then have "dropWhile (\<lambda>(ob, s). playback_start_time (out s) = - 1) (run (ev # evs) s) =
          dropWhile (\<lambda>(ob, s). playback_start_time (out s) = - 1) (run evs s')"
        unfolding r by simp
      with Cons.IH [OF i] show ?thesis by (simp only:)
    next
      case False
      then have d: "dropWhile (\<lambda>(ob, s). playback_start_time (out s) = - 1) (run (ev # evs) s) =
          run ([] @ ev # evs) s"
        unfolding r by (simp add: st)
      from run_initialised [OF i False, of evs]
      have so: "sorted (map (\<lambda>(ob, s). Au_GetTimeInPlayback True (Some (out s))) (run evs s'))"
        and lb: "\<forall>x \<in> set (run evs s'). Au_GetTimeInPlayback True (Some (out s')) \<le>
          Au_GetTimeInPlayback True (Some (out (snd x)))"
        by simp_all
      have "sorted (map (\<lambda>(ob, s). Au_GetTimeInPlayback True (Some (out s)))
          ((ob, s') # run evs s'))"
        using so lb by (auto simp: case_prod_unfold)
      then show ?thesis using d r by simp
    qed
  qed
qed

lemma fresh_time_inv:
  assumes "fresh_session pau" "0 < sample_rate pau"
  shows "time_inv pau"
  using assms fresh_session_ok [OF assms(1)]
  by (simp add: time_inv_def fresh_session_def queued_def)

text \<open>Blocks leave the queue in the order of their frame positions.\<close>

lemma slot_frames_from:
  assumes inv: "time_inv pau" and s: "SFFileReader_slot pau = Inr oc"
    and lb: "frames_from lb pau"
  shows "\<forall>p. (oc = Published p \<or> oc = Loop_Break p \<or> (\<exists>c. oc = Thread_Return c p)) \<longrightarrow>
     frames_from lb p"
proof -
  let ?rb = "sf_buffer_storage pau"
  let ?k = "writeIndex ?rb mod bufferSize ?rb"
  from inv have ok: "session_ok pau" by (simp add: time_inv_def)
  then obtain slots where sl: "sf_buffer_data pau = Some slots"
    by (auto simp: session_ok_def)
  show ?thesis
  proof (cases "writeIndex ?rb < readIndex ?rb + bufferSize ?rb")
    case False
    with SFFileReader_slot_full [OF ok] s lb show ?thesis by auto
  next
    case space: True
    show ?thesis
    proof (cases "wired (format pau)")
      case None
      with SFFileReader_slot_unwired [OF ok space] s lb show ?thesis by auto
    next
      case (Some code)
      show ?thesis
      proof (cases "sf_fd pau")
        case None
        with SFFileReader_slot_no_decoder [OF ok Some _ space] s show ?thesis by simp
      next
        case fd: (Some f)
        let ?fr = "fst (fst (sf_readf f))" and ?bytes = "snd (fst (sf_readf f))"
        let ?d = "?bytes @ drop (length ?bytes) (data (slots ! ?k))"
        let ?b1 = "(slots ! ?k)\<lparr>data := ?d\<rparr>"
        let ?b2 = "(slots ! ?k)\<lparr>data := ?d, pos_frames := playback_frames pau,
                     state := (if ?fr = 0 then PPPS_Stopped else PPPS_Playing)\<rparr>"
        let ?p1 = "pau\<lparr>sf_fd := Some (snd (sf_readf f)),
                      sf_buffer_data := Some (slots[?k := ?b1])\<rparr>"
        let ?p2 = "pau\<lparr>sf_fd := Some (snd (sf_readf f)),
                      playback_frames := playback_frames pau + int ?fr,
                      sf_buffer_data := Some (slots[?k := ?b2]),
                      sf_buffer_storage := ?rb\<lparr>writeIndex := Suc (writeIndex ?rb)\<rparr>\<rparr>"
        note e = SFFileReader_slot_wired [OF ok sl fd space Some]
        show ?thesis
        proof (cases "0 < ?fr \<and> ?fr \<noteq> 256")
          case True
          with e s have oc: "oc = Thread_Return code ?p1" by (simp add: Let_def)
          have q: "queued ?p1 = queued pau" by (rule queued_keep [OF ok sl space])
          have "frames_from lb ?p1" using lb by (simp add: frames_from_def q)
          with oc show ?thesis by simp
        next
          case False
          with e s have oc: "oc = Published ?p2" by (simp add: Let_def)
          have q: "queued ?p2 = queued pau @ [?b2]" by (rule queued_publish [OF ok sl space])
          have "frames_from lb ?p2" using lb by (auto simp: frames_from_def q)
          with oc show ?thesis by simp
        qed
      qed
    qed
  qed
qed

lemma fill_frames_from:
  assumes "time_inv pau" "SFFileReader_fill n pau = Inr (st, p)" "frames_from lb pau"
  shows "frames_from lb p"
  using assms
proof (induction n arbitrary: pau)
  case 0
  then show ?case by simp
next
  case (Suc n)
  from Suc.prems(2) obtain oc where o: "SFFileReader_slot pau = Inr oc"
    by (auto split: sum.splits)
  from slot_time_inv [OF Suc.prems(1) o] obtain q where
    q: "oc = Published q \<or> oc = Loop_Break q \<or> (\<exists>c. oc = Thread_Return c q)"
    "time_inv q"
    by blast
  from slot_frames_from [OF Suc.prems(1) o Suc.prems(3)] q(1)
  have f: "frames_from lb q" by blast
  from q(1) show ?case
  proof (elim disjE exE)
    assume "oc = Published q"
    with Suc.prems(2) o have "SFFileReader_fill n q = Inr (st, p)" by simp
    from Suc.IH [OF q(2) this f] show ?thesis .
  next
    assume "oc = Loop_Break q"
    with Suc.prems(2) o f show ?thesis by auto
  next
    fix c assume "oc = Thread_Return c q"
    with Suc.prems(2) o f show ?thesis by auto
  qed
qed

lemma frames_from_semaphore [simp]:
  "frames_from lb (pau\<lparr>sf_reader_semaphore_storage := x\<rparr>) = frames_from lb pau"
  by (simp add: frames_from_def queued_def ring_slots_def)

lemma wake_frames_from:
  assumes "time_inv pau" "SFFileReader_wake pau = Inr (st, p)" "frames_from lb pau"
  shows "frames_from lb p"
proof -
  let ?q = "pau\<lparr>sf_reader_semaphore_storage := sf_reader_semaphore_storage pau - 1\<rparr>"
  from assms(2) consider "p = pau" | "p = ?q"
    | n where "SFFileReader_fill n ?q = Inr (st, p)"
    by (auto simp: SFFileReader_wake_def Let_def split: if_splits)
  then show ?thesis
  proof cases
    case 1
    with assms(3) show ?thesis by simp
  next
    case 2
    with assms(3) show ?thesis by simp
  next
    case 3
    have "time_inv ?q" "frames_from lb ?q" using assms(1,3) by simp_all
    from fill_frames_from [OF this(1) 3 this(2)] show ?thesis .
  qed
qed

lemma callback_frames_from:
  assumes inv: "time_inv pau" and c: "PAPlayCallback fc l1 l2 pau = Inr (res, bytes, pau')"
    and lb: "frames_from lb pau"
  shows "frames_from lb pau' \<and>
     (\<forall>b. consumed_block pau pau' = Some b \<longrightarrow>
        lb \<le> pos_frames b \<and> frames_from (pos_frames b) pau')"
proof -
  let ?rb = "sf_buffer_storage pau"
  let ?r = "readIndex ?rb"
  from inv have ok: "session_ok pau" by (simp add: time_inv_def)
  then obtain slots where sl: "sf_buffer_data pau = Some slots"
    by (auto simp: session_ok_def)
  let ?b = "slots ! (?r mod bufferSize ?rb)"
  let ?adv = "pau\<lparr>sf_buffer_storage := ?rb\<lparr>readIndex := Suc ?r\<rparr>\<rparr>"
  note u = PAPlayCallback_unchanged [OF c]
  have cases: "readIndex (sf_buffer_storage pau') = ?r \<or>
     (?r < writeIndex ?rb \<and> readIndex (sf_buffer_storage pau') = Suc ?r)"
    using c ok
    by (auto simp: PAPlayCallback_session [OF ok sl] Let_def session_ok_def split: if_splits)
  from cases show ?thesis
  proof (elim disjE conjE)
    assume a: "readIndex (sf_buffer_storage pau') = ?r"
    have rb: "sf_buffer_storage pau' = ?rb"
      using u(14,15) a by (intro PaUtilRingBuffer.equality) simp_all
    have q: "queued pau' = queued pau" using rb u(11) by (rule queued_cong)
    have n: "consumed_block pau pau' = None" using a by (simp add: consumed_block_def)
    from lb q u(13) have "frames_from lb pau'" by (simp add: frames_from_def)
    with n show ?thesis by simp
  next
    assume ne: "?r < writeIndex ?rb" and r': "readIndex (sf_buffer_storage pau') = Suc ?r"
    have rb: "sf_buffer_storage pau' = sf_buffer_storage ?adv"
      using u(14,15) r' by (intro PaUtilRingBuffer.equality) simp_all
    have qh: "queued pau = ?b # queued ?adv" by (rule queued_hd [OF ok sl ne])
    have q: "queued pau' = queued ?adv" using rb u(11) by (intro queued_cong) simp_all
    have cb: "consumed_block pau pau' = Some ?b"
      using r' sl by (simp add: consumed_block_def)
    from inv qh have old: "pos_frames ?b \<le> playback_frames pau"
      "\<forall>x \<in> set (queued ?adv). pos_frames ?b \<le> pos_frames x"
      by (auto simp: time_inv_def)
    from lb qh have l: "lb \<le> pos_frames ?b" "\<forall>x \<in> set (queued ?adv). lb \<le> pos_frames x"
      "lb \<le> playback_frames pau"
      by (auto simp: frames_from_def)
    have 1: "frames_from lb pau'" using l q u(13) by (simp add: frames_from_def)
    have 2: "frames_from (pos_frames ?b) pau'" using old q u(13) by (simp add: frames_from_def)
    from 1 2 l(1) cb show ?thesis by simp
  qed
qed

lemma step_frames_from:
  assumes inv: "time_inv (out s)" and st: "sched_step ev s = Inr (ob, s')"
    and lb: "frames_from lb (out s)"
  shows "frames_from lb (out s') \<and>
     (\<forall>r b bytes. ob = Some (r, Some b, bytes) \<longrightarrow>
        lb \<le> pos_frames b \<and> frames_from (pos_frames b) (out s'))"
proof (cases ev)
  case Sched_Reader
  show ?thesis
  proof (cases "reader s = Reader_Running")
    case False
    with st Sched_Reader lb show ?thesis by (auto simp: sched_step_def)
  next
    case True
    with st Sched_Reader obtain r p where w: "SFFileReader_wake (out s) = Inr (r, p)"
      and s': "s' = \<lparr>out = p, reader = r\<rparr>" and ob: "ob = None"
      by (auto simp: sched_step_def split: sum.splits)
    from wake_frames_from [OF inv w lb] s' ob show ?thesis by simp
  qed
next
  case Sched_Reader_Slot
  show ?thesis
  proof (cases "reader s = Reader_Running")
    case False
    with st Sched_Reader_Slot lb show ?thesis by (auto simp: sched_step_def)
  next
    case True
    with st Sched_Reader_Slot obtain r p where w: "SFFileReader_fill 1 (out s) = Inr (r, p)"
      and s': "s' = \<lparr>out = p, reader = r\<rparr>" and ob: "ob = None"
      by (auto simp: sched_step_def split: sum.splits)
    from fill_frames_from [OF inv w lb] s' ob show ?thesis by simp
  qed
next
  case (Sched_Callback fc l1 l2)
  with st obtain res bytes p where c: "PACallback fc l1 l2 (out s) = Inr (res, bytes, p)"
    and s': "s' = s\<lparr>out := p\<rparr>" and ob: "ob = Some (res, consumed_block (out s) p, bytes)"
    by (auto simp: sched_step_def split: sum.splits)
  show ?thesis
  proof (cases "pa_callback (out s) = Ptr_PAPlayCallback")
    case True
    with c have "PAPlayCallback fc l1 l2 (out s) = Inr (res, bytes, p)"
      by (simp add: PACallback_def)
    from callback_frames_from [OF inv this lb] s' ob show ?thesis by simp
  next
    case False
    with c have "p = out s" by (auto simp: PACallback_def split: callback_ptr.splits)
    with s' ob lb show ?thesis by (simp add: consumed_block_def)
  qed
qed

lemma consumed_positions_Inl:
  "sched_step ev s = Inl x \<Longrightarrow> consumed_positions (ev # evs) s = []"
  by (simp add: consumed_positions_def observations_def List.map_filter_simps)

lemma consumed_positions_Some:
  "sched_step ev s = Inr (Some (r, Some b, bytes), s') \<Longrightarrow>
   consumed_positions (ev # evs) s = pos_frames b # consumed_positions evs s'"
  by (simp add: consumed_positions_def observations_def List.map_filter_simps)

lemma consumed_positions_None:
  "sched_step ev s = Inr (ob, s') \<Longrightarrow> \<forall>r b bytes. ob \<noteq> Some (r, Some b, bytes) \<Longrightarrow>
   consumed_positions (ev # evs) s = consumed_positions evs s'"
  by (cases ob) (auto simp: consumed_positions_def observations_def List.map_filter_simps
      split: option.splits)

lemma run_consumed_sorted:
  assumes "time_inv (out s)" "frames_from lb (out s)"
  shows "sorted (consumed_positions evs s) \<and> (\<forall>p \<in> set (consumed_positions evs s). lb \<le> p)"
  using assms
proof (induction evs arbitrary: s lb)
  case Nil
  then show ?case by (simp add: consumed_positions_def List.map_filter_simps)
next
  case (Cons ev evs)
  show ?case
  proof (cases "sched_step ev s")
    case (Inl x)
    then show ?thesis by (simp only: consumed_positions_Inl) simp
  next
    case (Inr y)
    obtain ob s' where y: "y = (ob, s')" by (cases y)
    with Inr have st: "sched_step ev s = Inr (ob, s')" by simp
    from step_time_inv [OF Cons.prems(1) st] have i: "time_inv (out s')" by simp
    note f = step_frames_from [OF Cons.prems(1) st Cons.prems(2)]
    show ?thesis
    proof (cases "\<exists>r b bytes. ob = Some (r, Some b, bytes)")
      case True
      then obtain r b bytes where ob: "ob = Some (r, Some b, bytes)" by blast
      with f have fb: "lb \<le> pos_frames b" "frames_from (pos_frames b) (out s')" by simp_all
      from Cons.IH [OF i fb(2)]
      have so: "sorted (consumed_positions evs s')"
        and ge: "\<forall>p \<in> set (consumed_positions evs s'). pos_frames b \<le> p"
        by simp_all
      have e: "consumed_positions (ev # evs) s = pos_frames b # consumed_positions evs s'"
        using st ob by (intro consumed_positions_Some) simp
      have "\<forall>p \<in> set (consumed_positions evs s'). lb \<le> p"
        using ge fb(1) by (meson order_trans)
      with so ge fb(1) show ?thesis unfolding e by simp
    next
      case False
      then have n: "\<forall>r b bytes. ob \<noteq> Some (r, Some b, bytes)" by blast
      from f have "frames_from lb (out s')" by simp
      from Cons.IH [OF i this] consumed_positions_None [OF st n] show ?thesis by simp
    qed
  qed
qed

lemma fresh_frames_from: "fresh_session pau \<Longrightarrow> frames_from 0 pau"
  by (simp add: frames_from_def fresh_session_def queued_def)

text \<open>The time state stays well-formed along a run; a query that does not get the
  lock answers with its sentinel.\<close>

lemma run_time_inv:
  assumes "time_inv (out s)"
  shows "\<forall>x \<in> set (run evs s). time_inv (out (snd x))"
  using assms
proof (induction evs arbitrary: s)
  case Nil
  then show ?case by simp
next
  case (Cons ev evs)
  show ?case
  proof (cases "sched_step ev s")
    case (Inl x)
    then show ?thesis by (simp only: run_Cons_Inl) simp
  next
    case (Inr y)
    obtain ob s' where y: "y = (ob, s')" by (cases y)
    with Inr have st: "sched_step ev s = Inr (ob, s')" by simp
    from step_time_inv [OF Cons.prems st] have i: "time_inv (out s')" by simp
    from Cons.IH [OF i] i show ?thesis unfolding run_Cons_Inr [OF st] by simp
  qed
qed

lemma time_inv_lock_failure:
  "time_inv pau \<Longrightarrow> Au_GetTimeInPlayback False (Some pau) = - 3"
  by (simp add: time_inv_def session_ok_def Au_GetTimeInPlayback_def)

lemma time_inv_initialised:
  "time_inv pau \<Longrightarrow> playback_start_time pau \<noteq> - 1 \<Longrightarrow>
   0 \<le> Au_GetTimeInPlayback True (Some pau)"
  by (simp add: time_inv_def session_ok_def Au_GetTimeInPlayback_def)

section \<open>The claims\<close>

subsection \<open>C1: a file that does not match the output's configuration\<close>

text \<open>
  Claim C1 says that \<^verbatim>\<open>Au_Play\<close> fails for every file whose sample rate or channel
  count differs from the output's configuration. The code compares the file's rate
  with \<^verbatim>\<open>pau->sample_rate\<close>, but the file's channel count with the literal 2, not with
  \<^verbatim>\<open>pau->channels\<close>. On an output created with one channel a two-channel file at the
  right rate is therefore accepted (\<^verbatim>\<open>Au_Play\<close> returns \<^verbatim>\<open>TRUE\<close>), and the file that
  does match the configuration, one channel at the right rate, is refused.
\<close>

theorem Au_Play_compares_channels_with_two:
  "map_sum id fst
     (Au_Play (fixture_env (Some (fixture_file 44100 2 []))) True
        (fst (Au_New (fixture_env None) True AUSF_F32 44100 1)) ''a.wav'') = Inr True \<and>
   map_sum id fst
     (Au_Play (fixture_env (Some (fixture_file 44100 1 []))) True
        (fst (Au_New (fixture_env None) True AUSF_F32 44100 1)) ''a.wav'') = Inr False"
  by (simp add: life_defs au_defs)

subsection \<open>C2: playing a file of K full blocks\<close>

text \<open>
  Claim C2, as stated, speaks of every source file of \<open>K\<close> full blocks. On an output
  of format int24, which \<^verbatim>\<open>Au_New\<close> and \<^verbatim>\<open>Au_Play\<close> accept, the reader thread returns
  at its format switch before it publishes a block: for a file of one full block the
  device's calls find the ring empty and return \<^verbatim>\<open>paComplete\<close> without consuming
  anything, even with the reader scheduled before each call.
\<close>

theorem playback_with_unwired_format:
  "\<exists>pau. played (fixture_env (Some (fixture_file 44100 2 (full_blocks [replicate 1536 7]))))
            (fst (Au_New (fixture_env None) True AUSF_I24 44100 2)) ''a.wav'' = Some pau \<and>
     observations (refill_rounds [(True, True), (True, True)])
        \<lparr>out = pau, reader = SFFileReader_entry True (Some pau)\<rparr> =
     [(paComplete, None, None), (paComplete, None, None)]"
proof -
  let ?e = "fixture_env (Some (fixture_file 44100 2 (full_blocks [replicate 1536 7])))"
  have "0 \<le> AUSF_I24" "AUSF_I24 \<le> 5" by (simp_all add: au_defs)
  from fixture_played [OF this channels_pos(1), of "full_blocks [replicate 1536 7]" "''a.wav''"]
  obtain pau0 pau cs where
    p: "Au_Play ?e True (Some pau0) ''a.wav'' = Inr (True, Some pau, cs)"
    and pl: "played ?e (fst (Au_New (fixture_env None) True AUSF_I24 44100 2)) ''a.wav'' = Some pau"
    and f: "format pau = AUSF_I24"
    by blast
  from Au_Play_True [OF p] have fs: "fresh_session pau" by auto
  have "observations (refill_rounds [(True, True), (True, True)])
        \<lparr>out = pau, reader = SFFileReader_entry True (Some pau)\<rparr> =
     replicate (length [(True, True), (True, True)]) (paComplete, None, None)"
    using f by (intro rounds_unwired [OF fs]) (simp_all add: wired_def au_defs)
  with pl show ?thesis by (simp add: numeral_2_eq_2)
qed

text \<open>
  Claim C2, amended: take an output of format float32, int32 or int16 with two
  channels, on which \<^verbatim>\<open>Au_Play\<close> has succeeded for a file whose decoder delivers \<open>K\<close>
  blocks of 256 frames, each as many bytes as the output's block size, and then 0
  frames. Run the session so that the reader thread finishes a pass of its main loop
  before each call of the device, for \<open>K + 1\<close> calls of 256 frames, the blocking lock
  of the first call succeeding. Then the first \<open>K\<close> calls return \<^verbatim>\<open>paContinue\<close>, the
  \<open>j\<close>-th of them consuming a \<^verbatim>\<open>Playing\<close> block at frame \<open>256 j\<close> and writing the
  file's \<open>j\<close>-th block to the output buffer, and the last call consumes a \<^verbatim>\<open>Stopped\<close>
  block at frame \<open>256 K\<close> and returns \<^verbatim>\<open>paComplete\<close>.
\<close>

theorem playback_of_full_blocks:
  assumes play: "Au_Play e True (Some pau0) name = Inr (True, Some pau, cs)"
    and fil: "sf_open e name = Some f" "sf_reads f = full_blocks bs"
    and fmt: "format pau0 = AUSF_F32 \<or> format pau0 = AUSF_I32 \<or> format pau0 = AUSF_I16"
    and ch: "channels pau0 = 2"
    and len: "\<forall>b \<in> set bs. int (length b) = bufferSizeBytes (Some pau0)"
    and locks: "length ls = Suc (length bs)" "fst (hd ls)"
  shows "map (\<lambda>(res, blk, bytes). (res, map_option state blk, map_option pos_frames blk))
           (observations (refill_rounds ls)
              \<lparr>out = pau, reader = SFFileReader_entry True (Some pau)\<rparr>) =
         map (\<lambda>j. (paContinue, Some PPPS_Playing, Some (256 * int j))) [0..<length bs] @
         [(paComplete, Some PPPS_Stopped, Some (256 * int (length bs)))] \<and>
         map (\<lambda>(res, blk, bytes). bytes)
           (butlast (observations (refill_rounds ls)
              \<lparr>out = pau, reader = SFFileReader_entry True (Some pau)\<rparr>)) =
         map Some bs"
proof -
  let ?s = "\<lparr>out = pau, reader = SFFileReader_entry True (Some pau)\<rparr>"
  let ?n = "bufferSizeBytes (Some pau0)"
  let ?P = "\<lambda>ob j. \<exists>b. ob = (if j < length bs then paContinue else paComplete, Some b,
                        Some (take (nat ?n) (data b))) \<and> expected_block bs j b"
  from Au_Play_True [OF play] fil have fs: "fresh_session pau" and fd: "sf_fd pau = Some f"
    and cf: "format pau = format pau0" "channels pau = channels pau0"
    by auto
  from fmt cf have w: "wired (format pau) \<noteq> None" by (auto simp: wired_def au_defs)
  from fmt cf have rr: "reader ?s = Reader_Running"
    by (auto simp: SFFileReader_entry_def au_defs)
  have inv: "playing_inv bs (out ?s)" using fresh_playing_inv [OF fs fd fil(2) w] by simp
  have bsz: "bufferSizeBytes (Some pau) = ?n" using cf by (intro bufferSizeBytes_cong) simp_all
  from wired_bufferSizeBytes [OF w] cf ch bsz
  have nb: "0 \<le> bufferSizeBytes (Some (out ?s))" "bufferSizeBytes (Some (out ?s)) \<le> 2048"
    by simp_all
  have all: "list_all2 ?P (observations (refill_rounds ls) ?s) [0..<0 + length ls]"
    using fs locks(2) bsz by (intro rounds_playing [OF inv rr _ _ _ _ nb]) (simp_all add: fresh_session_def)
  then have all': "list_all2 ?P (observations (refill_rounds ls) ?s) [0..<Suc (length bs)]"
    using locks(1) by simp
  have v: "(\<lambda>(res, blk, bytes). (res, map_option state blk, map_option pos_frames blk)) ob =
      (if j < length bs then (paContinue, Some PPPS_Playing, Some (256 * int j))
       else (paComplete, Some PPPS_Stopped, Some (256 * int (length bs))))"
    if "?P ob j" for ob j
    using that by (auto simp: expected_block_def)
  have 1: "map (\<lambda>(res, blk, bytes). (res, map_option state blk, map_option pos_frames blk))
           (observations (refill_rounds ls) ?s) =
        map (\<lambda>j. if j < length bs then (paContinue, Some PPPS_Playing, Some (256 * int j))
       else (paComplete, Some PPPS_Stopped, Some (256 * int (length bs)))) [0..<Suc (length bs)]"
    using all' v by (rule list_all2_map_eq)
  have o: "(\<lambda>(res, blk, bytes). bytes) ob = Some (bs ! j)" if "?P ob j" "j < length bs" for ob j
  proof -
    from that obtain b where ob: "ob = (paContinue, Some b, Some (take (nat ?n) (data b)))"
      and eb: "take (length (bs ! j)) (data b) = bs ! j"
      by (auto simp: expected_block_def)
    from len that(2) have "nat ?n = length (bs ! j)" by (metis nat_int nth_mem)
    with ob eb show ?thesis by simp
  qed
  have "list_all2 ?P (butlast (observations (refill_rounds ls) ?s)) [0..<length bs]"
    using all' by (rule list_all2_butlast_upt)
  then have la: "list_all2 (\<lambda>ob j. ?P ob j \<and> j < length bs)
      (butlast (observations (refill_rounds ls) ?s)) [0..<length bs]"
    by (auto simp: list_all2_conv_all_nth)
  have "map (\<lambda>(res, blk, bytes). bytes) (butlast (observations (refill_rounds ls) ?s)) =
      map (\<lambda>j. Some (bs ! j)) [0..<length bs]"
  proof (rule list_all2_map_eq [OF la])
    fix ob j
    assume "?P ob j \<and> j < length bs"
    then show "(\<lambda>(res, blk, bytes). bytes) ob = Some (bs ! j)" using o by blast
  qed
  also have "\<dots> = map Some (map ((!) bs) [0..<length bs])" by simp
  also have "\<dots> = map Some bs" by (simp only: map_nth)
  finally have 2: "map (\<lambda>(res, blk, bytes). bytes)
      (butlast (observations (refill_rounds ls) ?s)) = map Some bs" .
  from 1 2 show ?thesis by simp
qed

theorem playback_of_full_blocks_witness:
  "\<exists>pau. played (fixture_env (Some (fixture_file 44100 2 (full_blocks [replicate 1024 7]))))
            (fst (Au_New (fixture_env None) True AUSF_I16 44100 2)) ''a.wav'' = Some pau \<and>
     map (\<lambda>(res, blk, bytes). (res, map_option state blk, map_option pos_frames blk))
       (observations (refill_rounds [(True, True), (False, False)])
          \<lparr>out = pau, reader = SFFileReader_entry True (Some pau)\<rparr>) =
     [(paContinue, Some PPPS_Playing, Some 0), (paComplete, Some PPPS_Stopped, Some 256)] \<and>
     map (\<lambda>(res, blk, bytes). bytes)
       (butlast (observations (refill_rounds [(True, True), (False, False)])
          \<lparr>out = pau, reader = SFFileReader_entry True (Some pau)\<rparr>)) =
     [Some (replicate 1024 7)]"
proof -
  let ?e = "fixture_env (Some (fixture_file 44100 2 (full_blocks [replicate 1024 7])))"
  have "0 \<le> AUSF_I16" "AUSF_I16 \<le> 5" by (simp_all add: au_defs)
  from fixture_played [OF this channels_pos(1), of "full_blocks [replicate 1024 7]" "''a.wav''"]
  obtain pau0 pau cs where
    f: "format pau0 = AUSF_I16" "channels pau0 = 2"
    and p: "Au_Play ?e True (Some pau0) ''a.wav'' = Inr (True, Some pau, cs)"
    and pl: "played ?e (fst (Au_New (fixture_env None) True AUSF_I16 44100 2)) ''a.wav'' = Some pau"
    by blast
  have n: "bufferSizeBytes (Some pau0) = 1024"
    using f by (simp add: bufferSizeBytes_def au_defs int32_def)
  have h1: "sf_open ?e ''a.wav'' = Some (fixture_file 44100 2 (full_blocks [replicate 1024 7]))"
    by (simp add: au_defs)
  have h2: "sf_reads (fixture_file 44100 2 (full_blocks [replicate 1024 7])) =
      full_blocks [replicate 1024 7]"
    by (simp add: au_defs)
  have h3: "format pau0 = AUSF_F32 \<or> format pau0 = AUSF_I32 \<or> format pau0 = AUSF_I16"
    using f by simp
  have h4: "\<forall>b \<in> set [replicate 1024 (7::byte)]. int (length b) = bufferSizeBytes (Some pau0)"
    using n by simp
  have h5: "length [(True, True), (False, False)] = Suc (length [replicate 1024 (7::byte)])"
    "fst (hd [(True, True), (False, False)])"
    by simp_all
  from playback_of_full_blocks [OF p h1 h2 h3 f(2) h4 h5] pl
  show ?thesis by simp
qed

subsection \<open>C3: one invocation of the playback callback\<close>

text \<open>
  Claim C3, as stated, has the callback consume a block whenever 256 frames are asked
  for and a filled block is available. On the first block of a session (start time
  still at its sentinel) the callback takes the time mutex with a blocking lock, and
  if that lock fails it returns \<^verbatim>\<open>paComplete\<close> at once: here 32 blocks are queued,
  and the ring buffer is the same after the call.
\<close>

theorem PAPlayCallback_lock_failure_keeps_block:
  "\<exists>pau pau1 pau2.
     played (fixture_env (Some (fixture_file 44100 2 (full_blocks [replicate 1024 7]))))
       (fst (Au_New (fixture_env None) True AUSF_I16 44100 2)) ''a.wav'' = Some pau \<and>
     SFFileReader_wake pau = Inr (Reader_Running, pau1) \<and>
     PaUtil_GetRingBufferReadAvailable (sf_buffer_storage pau1) = 32 \<and>
     PAPlayCallback 256 False True pau1 = Inr (paComplete, None, pau2) \<and>
     sf_buffer_storage pau2 = sf_buffer_storage pau1"
proof -
  have "wired AUSF_I16 \<noteq> None" by (simp add: wired_def au_defs)
  from fixture_refilled [OF this channels_pos(1), of "[replicate 1024 7]" "''a.wav''"]
  obtain pau pau1 where
    pl: "played (fixture_env (Some (fixture_file 44100 2 (full_blocks [replicate 1024 7]))))
       (fst (Au_New (fixture_env None) True AUSF_I16 44100 2)) ''a.wav'' = Some pau"
    and wk: "SFFileReader_wake pau = Inr (Reader_Running, pau1)"
    and inv: "playing_inv [replicate 1024 7] pau1"
    and k: "readIndex (sf_buffer_storage pau1) = 0" "writeIndex (sf_buffer_storage pau1) = 32"
      "playback_start_time pau1 = - 1"
    by blast
  from inv obtain slots where ok: "session_ok pau1" and sl: "sf_buffer_data pau1 = Some slots"
    by (auto simp: playing_inv_def session_ok_def)
  have "\<exists>pau2. PAPlayCallback 256 False True pau1 = Inr (paComplete, None, pau2) \<and>
     sf_buffer_storage pau2 = sf_buffer_storage pau1"
    using k by (simp add: PAPlayCallback_session [OF ok sl] Let_def)
  with pl wk k show ?thesis by (auto simp: au_defs)
qed

text \<open>
  Claim C3, amended: on an active session (semaphore, ring buffer and time mutex in
  place, ring well-formed) every invocation posts the reader semaphore. If the frame
  count differs from 256 or no filled block is available, it returns \<^verbatim>\<open>paComplete\<close>
  without consuming a block, and clears \<^verbatim>\<open>is_playing\<close> if the lock of
  \<^verbatim>\<open>MARK_NOT_PLAYING\<close> is taken. Otherwise, if the start time is still the sentinel
  and the blocking lock fails, it returns \<^verbatim>\<open>paComplete\<close> without consuming a block
  and leaves \<^verbatim>\<open>is_playing\<close> alone. Otherwise, with a block size between 0 and the
  size of a block's data, it consumes exactly one block, the oldest, copies the first
  \<^verbatim>\<open>bufferSizeBytes_\<close> bytes of its data to the output buffer, advances the read
  cursor by one and returns \<^verbatim>\<open>paContinue\<close>, unless the block is tagged \<^verbatim>\<open>Stopped\<close>:
  then it returns \<^verbatim>\<open>paComplete\<close> and clears \<^verbatim>\<open>is_playing\<close> if the lock is taken. With
  a block size outside that range the copy leaves the block.
\<close>

theorem PAPlayCallback_cases:
  assumes ok: "session_ok pau"
  shows "(int fc \<noteq> PA_BUFFER_FRAMECOUNT \<or> queued pau = [] \<longrightarrow>
      (\<exists>pau'. PAPlayCallback fc l1 l2 pau = Inr (paComplete, None, pau') \<and>
         sf_reader_semaphore_storage pau' = Suc (sf_reader_semaphore_storage pau) \<and>
         sf_buffer_storage pau' = sf_buffer_storage pau \<and> queued pau' = queued pau \<and>
         is_playing pau' = (is_playing pau \<and> \<not> l2))) \<and>
    (int fc = PA_BUFFER_FRAMECOUNT \<and> queued pau \<noteq> [] \<and> playback_start_time pau = - 1 \<and>
       \<not> l1 \<longrightarrow>
      (\<exists>pau'. PAPlayCallback fc l1 l2 pau = Inr (paComplete, None, pau') \<and>
         sf_reader_semaphore_storage pau' = Suc (sf_reader_semaphore_storage pau) \<and>
         sf_buffer_storage pau' = sf_buffer_storage pau \<and> queued pau' = queued pau \<and>
         is_playing pau' = is_playing pau)) \<and>
    (int fc = PA_BUFFER_FRAMECOUNT \<and> queued pau \<noteq> [] \<and>
       (playback_start_time pau = - 1 \<longrightarrow> l1) \<and>
       0 \<le> bufferSizeBytes (Some pau) \<and> bufferSizeBytes (Some pau) \<le> FRBuf_data_bytes \<longrightarrow>
      (\<exists>pau'. PAPlayCallback fc l1 l2 pau =
           Inr (if state (hd (queued pau)) = PPPS_Stopped then paComplete else paContinue,
                Some (take (nat (bufferSizeBytes (Some pau))) (data (hd (queued pau)))),
                pau') \<and>
         sf_reader_semaphore_storage pau' = Suc (sf_reader_semaphore_storage pau) \<and>
         readIndex (sf_buffer_storage pau') = Suc (readIndex (sf_buffer_storage pau)) \<and>
         writeIndex (sf_buffer_storage pau') = writeIndex (sf_buffer_storage pau) \<and>
         queued pau' = tl (queued pau) \<and>
         consumed_block pau pau' = Some (hd (queued pau)) \<and>
         is_playing pau' =
           (if state (hd (queued pau)) = PPPS_Stopped \<and> l2 then False
            else if playback_start_time pau = - 1 \<or> l1 then True
            else is_playing pau))) \<and>
    (int fc = PA_BUFFER_FRAMECOUNT \<and> queued pau \<noteq> [] \<and>
       (playback_start_time pau = - 1 \<longrightarrow> l1) \<and>
       (bufferSizeBytes (Some pau) < 0 \<or> FRBuf_data_bytes < bufferSizeBytes (Some pau)) \<longrightarrow>
      PAPlayCallback fc l1 l2 pau = Inl OutOfBounds)"
proof -
  let ?rb = "sf_buffer_storage pau"
  from ok obtain slots where sl: "sf_buffer_data pau = Some slots"
    by (auto simp: session_ok_def)
  note e = PAPlayCallback_session [OF ok sl]
  note qn = queued_Nil_iff [OF ok]
  have 1: "\<exists>pau'. PAPlayCallback fc l1 l2 pau = Inr (paComplete, None, pau') \<and>
         sf_reader_semaphore_storage pau' = Suc (sf_reader_semaphore_storage pau) \<and>
         sf_buffer_storage pau' = sf_buffer_storage pau \<and> queued pau' = queued pau \<and>
         is_playing pau' = (is_playing pau \<and> \<not> l2)"
    if "int fc \<noteq> PA_BUFFER_FRAMECOUNT \<or> queued pau = []"
  proof -
    from that qn have c: "int fc \<noteq> 256 \<or> writeIndex ?rb = readIndex ?rb"
      by (auto simp: au_defs)
    then have "\<exists>pau'. PAPlayCallback fc l1 l2 pau = Inr (paComplete, None, pau') \<and>
         sf_reader_semaphore_storage pau' = Suc (sf_reader_semaphore_storage pau) \<and>
         sf_buffer_storage pau' = sf_buffer_storage pau \<and>
         sf_buffer_data pau' = sf_buffer_data pau \<and>
         is_playing pau' = (is_playing pau \<and> \<not> l2)"
      by (auto simp: e Let_def)
    then show ?thesis by (auto dest: queued_cong)
  qed
  have 2: "\<exists>pau'. PAPlayCallback fc l1 l2 pau = Inr (paComplete, None, pau') \<and>
         sf_reader_semaphore_storage pau' = Suc (sf_reader_semaphore_storage pau) \<and>
         sf_buffer_storage pau' = sf_buffer_storage pau \<and> queued pau' = queued pau \<and>
         is_playing pau' = is_playing pau"
    if "int fc = PA_BUFFER_FRAMECOUNT \<and> queued pau \<noteq> [] \<and> playback_start_time pau = - 1 \<and>
       \<not> l1"
  proof -
    from that qn have c: "int fc = 256" "writeIndex ?rb \<noteq> readIndex ?rb"
      "playback_start_time pau = - 1" "\<not> l1"
      by (auto simp: au_defs)
    then have "\<exists>pau'. PAPlayCallback fc l1 l2 pau = Inr (paComplete, None, pau') \<and>
         sf_reader_semaphore_storage pau' = Suc (sf_reader_semaphore_storage pau) \<and>
         sf_buffer_storage pau' = sf_buffer_storage pau \<and>
         sf_buffer_data pau' = sf_buffer_data pau \<and>
         is_playing pau' = is_playing pau"
      by (auto simp: e Let_def)
    then show ?thesis by (auto dest: queued_cong)
  qed
  have 3: "\<exists>pau'. PAPlayCallback fc l1 l2 pau =
           Inr (if state (hd (queued pau)) = PPPS_Stopped then paComplete else paContinue,
                Some (take (nat (bufferSizeBytes (Some pau))) (data (hd (queued pau)))),
                pau') \<and>
         sf_reader_semaphore_storage pau' = Suc (sf_reader_semaphore_storage pau) \<and>
         readIndex (sf_buffer_storage pau') = Suc (readIndex (sf_buffer_storage pau)) \<and>
         writeIndex (sf_buffer_storage pau') = writeIndex (sf_buffer_storage pau) \<and>
         queued pau' = tl (queued pau) \<and>
         consumed_block pau pau' = Some (hd (queued pau)) \<and>
         is_playing pau' =
           (if state (hd (queued pau)) = PPPS_Stopped \<and> l2 then False
            else if playback_start_time pau = - 1 \<or> l1 then True
            else is_playing pau)"
    if "int fc = PA_BUFFER_FRAMECOUNT \<and> queued pau \<noteq> [] \<and>
       (playback_start_time pau = - 1 \<longrightarrow> l1) \<and>
       0 \<le> bufferSizeBytes (Some pau) \<and> bufferSizeBytes (Some pau) \<le> FRBuf_data_bytes"
  proof -
    let ?adv = "pau\<lparr>sf_buffer_storage := ?rb\<lparr>readIndex := Suc (readIndex ?rb)\<rparr>\<rparr>"
    let ?b = "slots ! (readIndex ?rb mod bufferSize ?rb)"
    from that qn ok have c: "int fc = 256" "readIndex ?rb < writeIndex ?rb"
      "playback_start_time pau = - 1 \<longrightarrow> l1"
      "0 \<le> bufferSizeBytes (Some pau)" "bufferSizeBytes (Some pau) \<le> 2048"
      by (auto simp: au_defs session_ok_def)
    have qh: "queued pau = ?b # queued ?adv" by (rule queued_hd [OF ok sl c(2)])
    from c have "\<exists>pau'. PAPlayCallback fc l1 l2 pau =
           Inr (if state ?b = PPPS_Stopped then paComplete else paContinue,
                Some (take (nat (bufferSizeBytes (Some pau))) (data ?b)), pau') \<and>
         sf_reader_semaphore_storage pau' = Suc (sf_reader_semaphore_storage pau) \<and>
         sf_buffer_storage pau' = sf_buffer_storage ?adv \<and>
         sf_buffer_data pau' = sf_buffer_data ?adv \<and>
         is_playing pau' =
           (if state ?b = PPPS_Stopped \<and> l2 then False
            else if playback_start_time pau = - 1 \<or> l1 then True
            else is_playing pau)"
      by (auto simp: e Let_def)
    then obtain pau' where p: "PAPlayCallback fc l1 l2 pau =
           Inr (if state ?b = PPPS_Stopped then paComplete else paContinue,
                Some (take (nat (bufferSizeBytes (Some pau))) (data ?b)), pau')"
      "sf_reader_semaphore_storage pau' = Suc (sf_reader_semaphore_storage pau)"
      "sf_buffer_storage pau' = sf_buffer_storage ?adv"
      "sf_buffer_data pau' = sf_buffer_data ?adv"
      "is_playing pau' =
           (if state ?b = PPPS_Stopped \<and> l2 then False
            else if playback_start_time pau = - 1 \<or> l1 then True
            else is_playing pau)"
      by blast
    have q': "queued pau' = tl (queued pau)"
      using queued_cong [OF p(3,4)] qh by simp
    have cb: "consumed_block pau pau' = Some ?b"
      using p(3) sl by (simp add: consumed_block_def)
    from p q' cb qh show ?thesis by simp
  qed
  have 4: "PAPlayCallback fc l1 l2 pau = Inl OutOfBounds"
    if "int fc = PA_BUFFER_FRAMECOUNT \<and> queued pau \<noteq> [] \<and>
       (playback_start_time pau = - 1 \<longrightarrow> l1) \<and>
       (bufferSizeBytes (Some pau) < 0 \<or> FRBuf_data_bytes < bufferSizeBytes (Some pau))"
    using that qn by (auto simp: e Let_def au_defs)
  from 1 2 3 4 show ?thesis by blast
qed


theorem PAPlayCallback_cases_witness:
  "\<exists>pau pau1 pau2 pau3 pau4.
     played (fixture_env (Some (fixture_file 44100 2 (full_blocks [replicate 1024 7]))))
       (fst (Au_New (fixture_env None) True AUSF_I16 44100 2)) ''a.wav'' = Some pau \<and>
     SFFileReader_wake pau = Inr (Reader_Running, pau1) \<and>
     PAPlayCallback 255 True True pau1 = Inr (paComplete, None, pau2) \<and>
     queued pau2 = queued pau1 \<and>
     PAPlayCallback 256 False True pau1 = Inr (paComplete, None, pau3) \<and>
     queued pau3 = queued pau1 \<and>
     PAPlayCallback 256 True True pau1 =
       Inr (paContinue, Some (take 1024 (data (hd (queued pau1)))), pau4) \<and>
     queued pau4 = tl (queued pau1) \<and> is_playing pau4 \<and>
     (\<exists>pau5 pau6.
        played (fixture_env (Some (fixture_file 44100 2 (full_blocks [replicate 2048 7]))))
          (fst (Au_New (fixture_env None) True AUSF_F32 44100 3)) ''a.wav'' = Some pau5 \<and>
        SFFileReader_wake pau5 = Inr (Reader_Running, pau6) \<and>
        PAPlayCallback 256 True True pau6 = Inl OutOfBounds)"
proof -
  have "wired AUSF_F32 \<noteq> None" by (simp add: wired_def au_defs)
  from fixture_refilled [OF this channels_pos(2), of "[replicate 2048 7]" "''a.wav''"]
  obtain pau5 pau6 where
    pl5: "played (fixture_env (Some (fixture_file 44100 2 (full_blocks [replicate 2048 7]))))
       (fst (Au_New (fixture_env None) True AUSF_F32 44100 3)) ''a.wav'' = Some pau5"
    and wk5: "SFFileReader_wake pau5 = Inr (Reader_Running, pau6)"
    and inv5: "playing_inv [replicate 2048 7] pau6"
    and k5: "readIndex (sf_buffer_storage pau6) = 0" "writeIndex (sf_buffer_storage pau6) = 32"
      "playback_start_time pau6 = - 1" "format pau6 = AUSF_F32" "channels pau6 = 3"
    by blast
  from inv5 have ok5: "session_ok pau6" by (simp add: playing_inv_def)
  have ne5: "queued pau6 \<noteq> []" using k5 by (simp add: queued_Nil_iff [OF ok5])
  have n5: "bufferSizeBytes (Some pau6) = 3072"
    using k5 by (simp add: bufferSizeBytes_def au_defs int32_def)
  from PAPlayCallback_cases [OF ok5, of 256 True True] ne5 k5 n5
  have d: "PAPlayCallback 256 True True pau6 = Inl OutOfBounds"
    by (simp add: au_defs)
  have "wired AUSF_I16 \<noteq> None" by (simp add: wired_def au_defs)
  from fixture_refilled [OF this channels_pos(1), of "[replicate 1024 7]" "''a.wav''"]
  obtain pau pau1 where
    pl: "played (fixture_env (Some (fixture_file 44100 2 (full_blocks [replicate 1024 7]))))
       (fst (Au_New (fixture_env None) True AUSF_I16 44100 2)) ''a.wav'' = Some pau"
    and wk: "SFFileReader_wake pau = Inr (Reader_Running, pau1)"
    and inv: "playing_inv [replicate 1024 7] pau1"
    and k: "readIndex (sf_buffer_storage pau1) = 0" "writeIndex (sf_buffer_storage pau1) = 32"
      "playback_start_time pau1 = - 1" "\<not> is_playing pau1"
      "format pau1 = AUSF_I16" "channels pau1 = 2"
    by blast
  from inv have ok: "session_ok pau1" by (simp add: playing_inv_def)
  have ne: "queued pau1 \<noteq> []" using k by (simp add: queued_Nil_iff [OF ok])
  have n: "bufferSizeBytes (Some pau1) = 1024"
    using k by (simp add: bufferSizeBytes_def au_defs int32_def)
  from inv have "\<forall>k < length (queued pau1). expected_block [replicate 1024 7]
      (readIndex (sf_buffer_storage pau1) + k) (queued pau1 ! k)"
    by (simp add: playing_inv_def)
  from this [rule_format, of 0] ne k
  have "expected_block [replicate 1024 7] 0 (queued pau1 ! 0)" by simp
  then have st: "state (hd (queued pau1)) = PPPS_Playing"
    using ne by (simp add: expected_block_def hd_conv_nth)
  from PAPlayCallback_cases [OF ok, of 255 True True] obtain pau2 where
    a: "PAPlayCallback 255 True True pau1 = Inr (paComplete, None, pau2)"
      "queued pau2 = queued pau1"
    by (auto simp: au_defs)
  from PAPlayCallback_cases [OF ok, of 256 False True] ne k obtain pau3 where
    b: "PAPlayCallback 256 False True pau1 = Inr (paComplete, None, pau3)"
      "queued pau3 = queued pau1"
    by (auto simp: au_defs)
  from PAPlayCallback_cases [OF ok, of 256 True True] ne k n st obtain pau4 where
    c: "PAPlayCallback 256 True True pau1 =
       Inr (paContinue, Some (take 1024 (data (hd (queued pau1)))), pau4)"
      "queued pau4 = tl (queued pau1)" "is_playing pau4"
    by (auto simp: au_defs)
  from pl wk a b c pl5 wk5 d show ?thesis by blast
qed

subsection \<open>C4: formats without a decode call\<close>

text \<open>
  Claim C4 says that \<^verbatim>\<open>Au_Play\<close> rejects an int24, int8 or uint8 output at Play time.
  \<^verbatim>\<open>Au_Play\<close> never looks at the format: on an int24 output with a matching file it
  returns \<^verbatim>\<open>TRUE\<close>, and it is the reader thread that meets the missing decode call,
  on its first pass (diagnostic counter 123004).
\<close>

theorem Au_Play_accepts_int24:
  "\<exists>pau. played (fixture_env (Some (fixture_file 44100 2 [])))
       (fst (Au_New (fixture_env None) True AUSF_I24 44100 2)) ''a.wav'' = Some pau \<and>
     map_sum id fst (SFFileReader_wake pau) = Inr (Reader_Exited 123004)"
proof -
  let ?e = "fixture_env (Some (fixture_file 44100 2 []))"
  have "0 \<le> AUSF_I24" "AUSF_I24 \<le> 5" by (simp_all add: au_defs)
  from fixture_played [OF this channels_pos(1), of "[]" "''a.wav''"]
  obtain pau0 pau cs where
    p: "Au_Play ?e True (Some pau0) ''a.wav'' = Inr (True, Some pau, cs)"
    and pl: "played ?e (fst (Au_New (fixture_env None) True AUSF_I24 44100 2)) ''a.wav'' = Some pau"
    and f: "format pau = AUSF_I24"
    by blast
  from Au_Play_True [OF p] have fs: "fresh_session pau" by auto
  from fs have k: "0 < sf_reader_semaphore_storage pau" "\<not> sf_reader_should_exit pau"
    "writeIndex (sf_buffer_storage pau) <
       readIndex (sf_buffer_storage pau) + bufferSize (sf_buffer_storage pau)"
    by (simp_all add: fresh_session_def)
  have w: "wired (format pau) = None" using f by (simp add: wired_def au_defs)
  from wake_unwired [OF fresh_session_ok [OF fs] k w] f pl show ?thesis by simp
qed

text \<open>
  Claim C4, amended: for int24, int8 and uint8, all accepted by \<^verbatim>\<open>Au_New\<close>,
  \<^verbatim>\<open>Au_Play\<close> succeeds whenever the file passes its rate and channel checks and its
  resource requests succeed; the reader thread then starts, and its first pass
  returns from the thread at the format switch (diagnostic counter 123004, 123006 or
  123007) with nothing published: only the semaphore has been taken.
\<close>

theorem unwired_format_reaches_the_reader:
  assumes new: "Au_New e0 True fmt rate chans = (Some pau0, cs0)"
    and fmt: "fmt = AUSF_I24 \<or> fmt = AUSF_I8 \<or> fmt = AUSF_UI8"
    and env: "resources_ok e" "sf_open e name = Some f" "sf_samplerate f = rate"
      "sf_channels f = 2"
  shows "\<exists>pau cs. Au_Play e True (Some pau0) name = Inr (True, Some pau, cs) \<and>
     SFFileReader_entry True (Some pau) = Reader_Running \<and>
     SFFileReader_wake pau =
       Inr (Reader_Exited (if fmt = AUSF_I24 then 123004
                           else if fmt = AUSF_I8 then 123006 else 123007),
            pau\<lparr>sf_reader_semaphore_storage := 0\<rparr>)"
proof -
  from Au_New_Some [OF new] have a: "pa_stream pau0" "\<not> sf_reader_thread pau0"
    "sample_rate pau0 = rate" "format pau0 = fmt"
    by simp_all
  from Au_Play_ok [OF a(1,2) env(1,2)] env(3,4) a(3) obtain pau cs where
    p: "Au_Play e True (Some pau0) name = Inr (True, Some pau, cs)" by auto
  from Au_Play_True [OF p] a have fs: "fresh_session pau" and f: "format pau = fmt" by auto
  from fmt f have w: "wired (format pau) = None" and nc: "format pau \<noteq> AUSF_CUSTOM"
    by (auto simp: wired_def au_defs)
  from fs have k: "0 < sf_reader_semaphore_storage pau" "\<not> sf_reader_should_exit pau"
    "writeIndex (sf_buffer_storage pau) <
       readIndex (sf_buffer_storage pau) + bufferSize (sf_buffer_storage pau)"
    "sf_reader_semaphore_storage pau - 1 = 0"
    by (simp_all add: fresh_session_def)
  have "SFFileReader_wake pau =
       Inr (Reader_Exited (if fmt = AUSF_I24 then 123004
                           else if fmt = AUSF_I8 then 123006 else 123007),
            pau\<lparr>sf_reader_semaphore_storage := 0\<rparr>)"
    using wake_unwired [OF fresh_session_ok [OF fs] k(1,2,3) w] f fmt k(4)
    by (auto simp: au_defs)
  moreover have "SFFileReader_entry True (Some pau) = Reader_Running"
    using nc by (simp add: SFFileReader_entry_def)
  ultimately show ?thesis using p by blast
qed

theorem unwired_format_reaches_the_reader_witness:
  "\<exists>pau cs. Au_Play (fixture_env (Some (fixture_file 44100 2 []))) True
       (fst (Au_New (fixture_env None) True AUSF_I8 44100 2)) ''a.wav'' =
       Inr (True, Some pau, cs) \<and>
     SFFileReader_wake pau =
       Inr (Reader_Exited 123006, pau\<lparr>sf_reader_semaphore_storage := 0\<rparr>)"
proof -
  let ?e = "fixture_env (Some (fixture_file 44100 2 []))"
  obtain pau0 cs0 where n: "Au_New (fixture_env None) True AUSF_I8 44100 2 = (Some pau0, cs0)"
    by (simp add: Au_New_def au_defs)
  have h: "AUSF_I8 = AUSF_I24 \<or> AUSF_I8 = AUSF_I8 \<or> AUSF_I8 = AUSF_UI8"
    "resources_ok ?e" "sf_open ?e ''a.wav'' = Some (fixture_file 44100 2 [])"
    "sf_samplerate (fixture_file 44100 2 []) = 44100" "sf_channels (fixture_file 44100 2 []) = 2"
    by (simp_all add: au_defs resources_ok_def)
  from unwired_format_reaches_the_reader [OF n h] n show ?thesis
    by (auto simp: au_defs)
qed

subsection \<open>C5: stopping\<close>

text \<open>
  Claim C5: for every output the interface can reach (library initialised, handle not
  \<^verbatim>\<open>NULL\<close>), \<^verbatim>\<open>Au_Stop\<close> returns \<^verbatim>\<open>TRUE\<close> and leaves the output without a session; a
  second \<^verbatim>\<open>Au_Stop\<close> returns \<^verbatim>\<open>TRUE\<close>, leaves the struct as it is and releases
  nothing (its one call is the precautionary \<^verbatim>\<open>Pa_StopStream\<close>); and \<^verbatim>\<open>Au_Play\<close>
  on the stopped output succeeds whenever the file passes the checks of \<^verbatim>\<open>Au_Play\<close>
  and the resource requests succeed.
\<close>

theorem Au_Stop_total_and_idempotent:
  assumes "reachable pau"
  shows "\<exists>pau' cs. Au_Stop e True (Some pau) = Inr (True, Some pau', cs) \<and>
     no_session pau' \<and>
     Au_Stop e2 True (Some pau') = Inr (True, Some pau', [Call_Pa_StopStream]) \<and>
     (resources_ok e3 \<and> sf_open e3 name = Some f \<and> sf_samplerate f = sample_rate pau \<and>
      sf_channels f = 2 \<longrightarrow>
        (\<exists>pau2 cs2. Au_Play e3 True (Some pau') name = Inr (True, Some pau2, cs2)))"
proof -
  from reachable_handle_inv [OF assms] have i: "pa_stream pau"
    "\<not> (sf_reader_thread pau \<and> \<not> sf_reader_semaphore pau)"
    "\<not> (sf_reader_thread pau \<and> \<not> sf_reader_thread_storage pau)"
    by (auto simp: handle_inv_def)
  from Au_Stop_total [OF i(2,3)] obtain pau' cs
    where s: "Au_Stop e True (Some pau) = Inr (True, Some pau', cs)" by blast
  from Au_Stop_result [OF s] have n: "no_session pau'" and k: "pa_stream pau' = pa_stream pau"
    "sample_rate pau' = sample_rate pau"
    by auto
  from n k i have s2: "Au_Stop e2 True (Some pau') = Inr (True, Some pau', [Call_Pa_StopStream])"
    by (simp add: Au_Stop_no_session)
  have "\<exists>pau2 cs2. Au_Play e3 True (Some pau') name = Inr (True, Some pau2, cs2)"
    if "resources_ok e3 \<and> sf_open e3 name = Some f \<and> sf_samplerate f = sample_rate pau \<and>
      sf_channels f = 2"
    using that n k i by (intro Au_Play_ok [where f = f]) (auto simp: no_session_def)
  with s n s2 show ?thesis by blast
qed

theorem Au_Stop_total_and_idempotent_witness:
  "\<exists>pau' cs. Au_Stop (fixture_env None) True
        (played (fixture_env (Some (fixture_file 44100 2 [])))
           (fst (Au_New (fixture_env None) True AUSF_F32 44100 2)) ''a.wav'') =
        Inr (True, Some pau', cs) \<and>
     Au_Stop (fixture_env None) True (Some pau') = Inr (True, Some pau', [Call_Pa_StopStream]) \<and>
     (\<exists>pau2 cs2. Au_Play (fixture_env (Some (fixture_file 44100 2 []))) True (Some pau') ''b.wav'' =
         Inr (True, Some pau2, cs2))"
proof -
  have "0 \<le> AUSF_F32" "AUSF_F32 \<le> 5" by (simp_all add: au_defs)
  from fixture_played [OF this channels_pos(1), of "[]" "''a.wav''"] obtain pau where
    p: "played (fixture_env (Some (fixture_file 44100 2 [])))
        (fst (Au_New (fixture_env None) True AUSF_F32 44100 2)) ''a.wav'' = Some pau"
    and r: "reachable pau" and sr: "sample_rate pau = 44100" by blast
  have h: "resources_ok (fixture_env (Some (fixture_file 44100 2 []))) \<and>
      sf_open (fixture_env (Some (fixture_file 44100 2 []))) ''b.wav'' = Some (fixture_file 44100 2 []) \<and>
      sf_samplerate (fixture_file 44100 2 []) = sample_rate pau \<and>
      sf_channels (fixture_file 44100 2 []) = 2"
    using sr by (simp add: au_defs resources_ok_def)
  from Au_Stop_total_and_idempotent [OF r, of "fixture_env None" "fixture_env None"
      "fixture_env (Some (fixture_file 44100 2 []))" "''b.wav''" "fixture_file 44100 2 []"] h p
  show ?thesis by auto
qed

subsection \<open>C6: deleting an output that is playing\<close>

text \<open>
  Claim C6 says that \<^verbatim>\<open>Au_Delete\<close> on an output with an active session first does
  all that \<^verbatim>\<open>Au_Stop\<close> does. The code of \<^verbatim>\<open>Au_Delete\<close> never calls \<^verbatim>\<open>Au_Stop\<close>: on the
  session right after a successful \<^verbatim>\<open>Au_Play\<close> it stops the stream, closes the
  decoder, closes the stream and frees the struct, and reports \<^verbatim>\<open>TRUE\<close>. The reader
  thread is neither signalled nor joined, the semaphore and the mutex are not
  destroyed and the ring memory is not freed, all of which \<^verbatim>\<open>Au_Stop\<close> does on the
  same session.
\<close>

theorem Au_Delete_while_playing_omits_Stop:
  "Au_Delete True
     (played (fixture_env (Some (fixture_file 44100 2 [])))
        (fst (Au_New (fixture_env None) True AUSF_F32 44100 2)) ''a.wav'') =
     (True, None,
      [Call_Pa_StopStream, Call_sf_close, Call_Pa_CloseStream, Call_free_Au_Output]) \<and>
   map_sum id (snd \<circ> snd)
     (Au_Stop (fixture_env None) True
        (played (fixture_env (Some (fixture_file 44100 2 [])))
           (fst (Au_New (fixture_env None) True AUSF_F32 44100 2)) ''a.wav'')) =
     Inr [Call_Pa_StopStream, Call_sem_post, Call_pthread_join, Call_sem_destroy,
          Call_PaUtil_FlushRingBuffer, Call_free_sf_buffer_data,
          Call_pthread_mutex_destroy, Call_sf_close]"
  by (simp add: life_defs au_defs)

subsection \<open>C7: the time in playback\<close>

text \<open>
  Claim C7, as stated, has \<^verbatim>\<open>Au_GetTimeInPlayback\<close> return a negative sentinel in
  every state before the first callback has initialised the time state. Right after
  a successful \<^verbatim>\<open>Au_Play\<close> the start time and the current time both hold the
  sentinel \<open>-1\<close>, the mutex exists, and the function returns their difference, 0.
\<close>

theorem Au_GetTimeInPlayback_before_first_callback:
  "\<exists>pau. played (fixture_env (Some (fixture_file 44100 2 [])))
       (fst (Au_New (fixture_env None) True AUSF_F32 44100 2)) ''a.wav'' = Some pau \<and>
     playback_start_time pau = - 1 \<and>
     \<not> Au_GetTimeInPlayback True (Some pau) < 0"
proof -
  let ?e = "fixture_env (Some (fixture_file 44100 2 []))"
  have r: "0 \<le> AUSF_F32" "AUSF_F32 \<le> 5" by (simp_all add: au_defs)
  from fixture_played [OF r channels_pos(1), of "[]" "''a.wav''"]
  obtain pau0 pau cs where
    p: "Au_Play ?e True (Some pau0) ''a.wav'' = Inr (True, Some pau, cs)"
    and pl: "played ?e (fst (Au_New (fixture_env None) True AUSF_F32 44100 2)) ''a.wav'' = Some pau"
    by blast
  from Au_Play_True [OF p] have "fresh_session pau" by auto
  then have "playback_start_time pau = - 1" "Au_GetTimeInPlayback True (Some pau) = 0"
    by (simp_all add: fresh_session_def Au_GetTimeInPlayback_def)
  with pl show ?thesis by simp
qed

text \<open>
  Claim C7, amended: \<^verbatim>\<open>Au_GetTimeInPlayback\<close> returns \<open>-1\<close> for a \<^verbatim>\<open>NULL\<close> handle,
  \<open>-2\<close> on a handle without a session (fresh from \<^verbatim>\<open>Au_New\<close>, or after \<^verbatim>\<open>Au_Stop\<close>),
  \<open>-3\<close> when the lock cannot be taken, and otherwise the current time minus the start
  time: that is 0 right after a successful \<^verbatim>\<open>Au_Play\<close>, and after every callback that
  consumed a block; the first such callback has set both times to 0.
\<close>

theorem Au_GetTimeInPlayback_values:
  "Au_GetTimeInPlayback l None = - 1 \<and>
   (Au_New e True fmt rate chans = (Some pau0, cs0) \<longrightarrow>
      Au_GetTimeInPlayback l (Some pau0) = - 2) \<and>
   (Au_Stop e True (Some pau) = Inr (r, h, cs) \<longrightarrow> Au_GetTimeInPlayback l h = - 2) \<and>
   (Au_Play e True (Some pau) name = Inr (True, h1, cs1) \<longrightarrow>
      Au_GetTimeInPlayback l h1 = (if l then 0 else - 3)) \<and>
   (PAPlayCallback fc l1 l2 pau = Inr (res, Some bytes, pau') \<longrightarrow>
      Au_GetTimeInPlayback l (Some pau') =
        (if l then playback_time pau' - playback_start_time pau' else - 3) \<and>
      (playback_start_time pau = - 1 \<longrightarrow>
         playback_start_time pau' = 0 \<and> playback_time pau' = 0))"
proof (intro conjI impI)
  show "Au_GetTimeInPlayback l None = - 1" by (simp add: Au_GetTimeInPlayback_def)
next
  assume "Au_New e True fmt rate chans = (Some pau0, cs0)"
  from Au_New_Some [OF this] show "Au_GetTimeInPlayback l (Some pau0) = - 2"
    by (simp add: Au_GetTimeInPlayback_def)
next
  assume "Au_Stop e True (Some pau) = Inr (r, h, cs)"
  from Au_Stop_result [OF this] show "Au_GetTimeInPlayback l h = - 2"
    by (auto simp: Au_GetTimeInPlayback_def no_session_def)
next
  assume "Au_Play e True (Some pau) name = Inr (True, h1, cs1)"
  from Au_Play_True [OF this] show "Au_GetTimeInPlayback l h1 = (if l then 0 else - 3)"
    by (auto simp: Au_GetTimeInPlayback_def fresh_session_def)
next
  assume c: "PAPlayCallback fc l1 l2 pau = Inr (res, Some bytes, pau')"
  from PAPlayCallback_consumed_time [OF c]
  show "Au_GetTimeInPlayback l (Some pau') =
        (if l then playback_time pau' - playback_start_time pau' else - 3)"
    by (simp add: Au_GetTimeInPlayback_def)
  assume "playback_start_time pau = - 1"
  with PAPlayCallback_consumed_time [OF c]
  show "playback_start_time pau' = 0" "playback_time pau' = 0" by simp_all
qed

theorem Au_GetTimeInPlayback_values_witness:
  "Au_GetTimeInPlayback True None = - 1 \<and>
   Au_GetTimeInPlayback True (fst (Au_New (fixture_env None) True AUSF_I16 44100 2)) = - 2 \<and>
   (\<exists>pau pau1 res bytes pau2.
      played (fixture_env (Some (fixture_file 44100 2 (full_blocks [replicate 1024 7]))))
        (fst (Au_New (fixture_env None) True AUSF_I16 44100 2)) ''a.wav'' = Some pau \<and>
      Au_GetTimeInPlayback True (Some pau) = 0 \<and>
      Au_GetTimeInPlayback False (Some pau) = - 3 \<and>
      Au_GetTimeInPlayback True
        (fst (snd (projr (Au_Stop (fixture_env None) True (Some pau))))) = - 2 \<and>
      SFFileReader_wake pau = Inr (Reader_Running, pau1) \<and>
      PAPlayCallback 256 True True pau1 = Inr (res, Some bytes, pau2) \<and>
      Au_GetTimeInPlayback True (Some pau2) = 0)"
proof -
  let ?e = "fixture_env (Some (fixture_file 44100 2 (full_blocks [replicate 1024 7])))"
  have r: "0 \<le> AUSF_I16" "AUSF_I16 \<le> 5" by (simp_all add: au_defs)
  from fixture_played [OF r channels_pos(1), of "full_blocks [replicate 1024 7]" "''a.wav''"]
  obtain pau0 cs0 pau cs where
    n: "Au_New (fixture_env None) True AUSF_I16 44100 2 = (Some pau0, cs0)"
    and p: "Au_Play ?e True (Some pau0) ''a.wav'' = Inr (True, Some pau, cs)"
    and pl: "played ?e (fst (Au_New (fixture_env None) True AUSF_I16 44100 2)) ''a.wav'' = Some pau"
    and rp: "reachable pau"
    by blast
  have "wired AUSF_I16 \<noteq> None" by (simp add: wired_def au_defs)
  from fixture_refilled [OF this channels_pos(1), of "[replicate 1024 7]" "''a.wav''"] pl
  obtain pau1 where
    wk: "SFFileReader_wake pau = Inr (Reader_Running, pau1)"
    and inv: "playing_inv [replicate 1024 7] pau1"
    and k: "readIndex (sf_buffer_storage pau1) = 0" "writeIndex (sf_buffer_storage pau1) = 32"
      "playback_start_time pau1 = - 1" "format pau1 = AUSF_I16" "channels pau1 = 2"
    by auto
  have nb: "bufferSizeBytes (Some pau1) = 1024"
    using k by (simp add: bufferSizeBytes_def au_defs int32_def)
  from callback_playing [OF inv, of True True] k nb obtain res bytes pau2 where
    c: "PAPlayCallback 256 True True pau1 = Inr (res, Some bytes, pau2)"
    by auto
  from reachable_handle_inv [OF rp] have
    "\<not> (sf_reader_thread pau \<and> \<not> sf_reader_semaphore pau)"
    "\<not> (sf_reader_thread pau \<and> \<not> sf_reader_thread_storage pau)"
    by (auto simp: handle_inv_def)
  from Au_Stop_total [OF this] obtain h cs' where
    s: "Au_Stop (fixture_env None) True (Some pau) = Inr (True, Some h, cs')" by blast
  note t = Au_GetTimeInPlayback_values
  have 1: "Au_GetTimeInPlayback True None = - 1"
    using t [of True] by simp
  have 2: "Au_GetTimeInPlayback True (Some pau0) = - 2"
    using t [of True "fixture_env None" AUSF_I16 44100 2 pau0 cs0] n by simp
  have 3: "Au_GetTimeInPlayback True (Some pau) = 0" "Au_GetTimeInPlayback False (Some pau) = - 3"
    using t [of True ?e _ _ _ _ _ pau0 _ _ _ "''a.wav''" "Some pau" cs]
      t [of False ?e _ _ _ _ _ pau0 _ _ _ "''a.wav''" "Some pau" cs] p by simp_all
  have 4: "Au_GetTimeInPlayback True (Some h) = - 2"
    using t [of True "fixture_env None" _ _ _ _ _ pau True "Some h" cs'] s by simp
  have 5: "Au_GetTimeInPlayback True (Some pau2) = 0"
    using t [of True _ _ _ _ _ _ pau1 _ _ _ _ _ _ 256 True True res bytes pau2] c k by simp
  from 1 2 3 4 5 n pl wk c s show ?thesis by auto
qed

subsection \<open>C8: asking whether an output plays\<close>

text \<open>
  Claim C8 says that \<^verbatim>\<open>Au_IsPlaying\<close> runs without error in every reachable state,
  also right after \<^verbatim>\<open>Au_New\<close>, when no time mutex exists. The code hands
  \<^verbatim>\<open>pau->playback_time_mutex\<close> to \<^verbatim>\<open>pthread_mutex_lock\<close> without looking at it, and on
  a handle fresh from \<^verbatim>\<open>Au_New\<close> that pointer is \<^verbatim>\<open>NULL\<close>. \<^verbatim>\<open>Au_GetTimeInPlayback\<close>
  tests the pointer first and answers with its sentinel \<open>-2\<close> on the same handle.
\<close>

theorem Au_IsPlaying_after_New_locks_null_mutex:
  "Au_IsPlaying True True (fst (Au_New (fixture_env None) True AUSF_F32 44100 2)) =
     Inl NullPointer \<and>
   Au_GetTimeInPlayback True (fst (Au_New (fixture_env None) True AUSF_F32 44100 2)) = - 2"
  by (simp add: life_defs Au_IsPlaying_def Au_GetTimeInPlayback_def au_defs)

subsection \<open>C9: the time in playback never goes back\<close>

text \<open>
  Claim C9, as stated, is about the value \<^verbatim>\<open>Au_GetTimeInPlayback\<close> returns. When the
  function does not get the time mutex it returns its sentinel \<open>-3\<close>: in a session
  that plays a file of one block, a query that takes the lock after the first
  callback returns a time of at least 0, and a query after the next reader pass whose
  lock fails returns \<open>-3\<close>, which is less.
\<close>

theorem time_in_playback_lock_failure_goes_back:
  "\<exists>pau. played (fixture_env (Some (fixture_file 44100 2 (full_blocks [replicate 1024 7]))))
            (fst (Au_New (fixture_env None) True AUSF_I16 44100 2)) ''a.wav'' = Some pau \<and>
     \<not> sorted (map (\<lambda>(l, ob, s). Au_GetTimeInPlayback l (Some (out s)))
       (zip [True, False, True]
          (dropWhile (\<lambda>(ob, s). playback_start_time (out s) = - 1)
             (run (refill_rounds [(True, True), (True, True)])
                \<lparr>out = pau, reader = SFFileReader_entry True (Some pau)\<rparr>))))"
proof -
  let ?bs = "[replicate 1024 (7::byte)]"
  let ?f = "fixture_file 44100 2 (full_blocks ?bs)"
  let ?e = "fixture_env (Some ?f)"
  have "0 \<le> AUSF_I16" "AUSF_I16 \<le> 5" by (simp_all add: au_defs)
  from fixture_played [OF this channels_pos(1), of "full_blocks ?bs" "''a.wav''"]
  obtain pau0 pau cs where
    p: "Au_Play ?e True (Some pau0) ''a.wav'' = Inr (True, Some pau, cs)"
    and pl: "played ?e (fst (Au_New (fixture_env None) True AUSF_I16 44100 2)) ''a.wav'' = Some pau"
    and c: "format pau = AUSF_I16" "channels pau = 2" "sample_rate pau = 44100"
    by blast
  let ?s = "\<lparr>out = pau, reader = SFFileReader_entry True (Some pau)\<rparr>"
  from Au_Play_True [OF p] have fs: "fresh_session pau" and fd: "sf_fd pau = Some ?f"
    by (auto simp: fixture_env_def)
  have w: "wired (format pau) \<noteq> None" using c by (simp add: wired_def au_defs)
  have "sf_reads ?f = full_blocks ?bs" by (simp add: fixture_file_def)
  from fresh_playing_inv [OF fs fd this w] have inv: "playing_inv ?bs (out ?s)" by simp
  have rr: "reader ?s = Reader_Running" using c by (simp add: SFFileReader_entry_def au_defs)
  from fs have k: "pa_callback (out ?s) = Ptr_PAPlayCallback"
    "0 < sf_reader_semaphore_storage (out ?s)" "\<not> sf_reader_should_exit (out ?s)"
    "playback_start_time (out ?s) = - 1"
    by (simp_all add: fresh_session_def)
  from wired_bufferSizeBytes [OF w c(2)]
  have nb: "0 \<le> bufferSizeBytes (Some (out ?s))" "bufferSizeBytes (Some (out ?s)) \<le> 2048"
    by simp_all
  have lk: "playback_start_time (out ?s) = - 1 \<longrightarrow> True" by simp
  from round_playing [OF inv rr k(1,2,3) lk nb, where ?l2.0 = True
      and evs = "refill_rounds [(True, True)]"]
  obtain s2 s1 ob where
    i: "playing_inv ?bs (out s2)" "reader s2 = Reader_Running"
      "pa_callback (out s2) = Ptr_PAPlayCallback" "0 < sf_reader_semaphore_storage (out s2)"
      "\<not> sf_reader_should_exit (out s2)" "playback_start_time (out s2) \<noteq> - 1"
      "bufferSizeBytes (Some (out s2)) = bufferSizeBytes (Some (out ?s))"
    and r1: "run (Sched_Reader # Sched_Callback 256 True True # refill_rounds [(True, True)]) ?s =
        (None, s1) # (Some ob, s2) # run (refill_rounds [(True, True)]) s2"
      "playback_start_time (out s1) = playback_start_time (out ?s)"
    by blast
  have lk2: "playback_start_time (out s2) = - 1 \<longrightarrow> True" by simp
  from nb i(7) have nb2: "0 \<le> bufferSizeBytes (Some (out s2))"
    "bufferSizeBytes (Some (out s2)) \<le> 2048" by simp_all
  from round_playing [OF i(1-5) lk2 nb2, where ?l2.0 = True and evs = "[]"]
  obtain s4 s3 ob' where
    r2: "run (Sched_Reader # Sched_Callback 256 True True # []) s2 =
        (None, s3) # (Some ob', s4) # run [] s4"
    by blast
  have rf: "refill_rounds [(True, True), (True, True)] =
      Sched_Reader # Sched_Callback 256 True True # refill_rounds [(True, True)]"
    "refill_rounds [(True, True)] = Sched_Reader # Sched_Callback 256 True True # []"
    by (simp_all add: refill_rounds_def)
  have run: "run (refill_rounds [(True, True), (True, True)]) ?s =
      [(None, s1), (Some ob, s2), (None, s3), (Some ob', s4)]"
    using r1(1) r2 by (simp only: rf) simp
  have d: "dropWhile (\<lambda>(ob, s). playback_start_time (out s) = - 1)
          (run (refill_rounds [(True, True), (True, True)]) ?s) =
      [(Some ob, s2), (None, s3), (Some ob', s4)]"
    using r1(2) k(4) i(6) by (simp add: run)
  have "0 < sample_rate pau" using c by simp
  with fs have "time_inv (out ?s)" by (simp add: fresh_time_inv)
  from run_time_inv [OF this, of "refill_rounds [(True, True), (True, True)]"]
  have t: "time_inv (out s2)" "time_inv (out s3)" by (simp_all add: run)
  from time_inv_initialised [OF t(1) i(6)] time_inv_lock_failure [OF t(2)]
  have "\<not> Au_GetTimeInPlayback True (Some (out s2)) \<le> Au_GetTimeInPlayback False (Some (out s3))"
    by simp
  then have "\<not> sorted (map (\<lambda>(l, ob, s). Au_GetTimeInPlayback l (Some (out s)))
       (zip [True, False, True] [(Some ob, s2), (None, s3), (Some ob', s4)]))"
    by simp
  with pl d show ?thesis by (auto simp only:)
qed

text \<open>
  Claim C9, amended: take a session that a successful \<^verbatim>\<open>Au_Play\<close> has started on an
  output in any state the interface can reach (fresh from \<^verbatim>\<open>Au_New\<close> or after earlier
  sessions), and run it under any schedule of reader passes and device calls, with any
  frame counts, any lock outcomes and any decoder behaviour. From the first state in
  which the start time is initialised on, the values \<^verbatim>\<open>Au_GetTimeInPlayback\<close> returns
  when it takes the lock never decrease from one state to the next; when it does not
  get the lock it returns \<open>-3\<close>, in every state of the session; and the frame positions
  of the blocks the callback consumes, in the order it consumes them, never decrease.
\<close>

theorem time_in_playback_monotone:
  assumes reach: "reachable pau0"
    and play: "Au_Play e True (Some pau0) name = Inr (True, Some pau, cs)"
  shows "sorted (map (\<lambda>(ob, s). Au_GetTimeInPlayback True (Some (out s)))
           (dropWhile (\<lambda>(ob, s). playback_start_time (out s) = - 1)
              (run evs \<lparr>out = pau, reader = SFFileReader_entry True (Some pau)\<rparr>))) \<and>
     (\<forall>x \<in> set (run evs \<lparr>out = pau, reader = SFFileReader_entry True (Some pau)\<rparr>).
        Au_GetTimeInPlayback False (Some (out (snd x))) = - 3) \<and>
     sorted (consumed_positions evs \<lparr>out = pau, reader = SFFileReader_entry True (Some pau)\<rparr>)"
proof -
  let ?s = "\<lparr>out = pau, reader = SFFileReader_entry True (Some pau)\<rparr>"
  from reachable_sample_rate [OF reach] have "1 \<le> sample_rate pau0" .
  with Au_Play_True [OF play] have fs: "fresh_session pau" and "0 < sample_rate pau" by auto
  then have "time_inv pau" by (rule fresh_time_inv)
  then have i: "time_inv (out ?s)" by simp
  from fresh_frames_from [OF fs] have f: "frames_from 0 (out ?s)" by simp
  from i have "sorted (map (\<lambda>(ob, s). Au_GetTimeInPlayback True (Some (out s)))
           (dropWhile (\<lambda>(ob, s). playback_start_time (out s) = - 1) (run evs ?s)))"
    by (rule run_sorted_after_initialisation)
  moreover from run_consumed_sorted [OF i f, of evs]
  have "sorted (consumed_positions evs ?s)" by simp
  moreover from run_time_inv [OF i, of evs]
  have "\<forall>x \<in> set (run evs ?s). Au_GetTimeInPlayback False (Some (out (snd x))) = - 3"
    by (auto intro: time_inv_lock_failure)
  ultimately show ?thesis by simp
qed

theorem time_in_playback_monotone_witness:
  "\<exists>pau. played (fixture_env (Some (fixture_file 44100 2 (full_blocks [replicate 1024 7]))))
            (fst (Au_New (fixture_env None) True AUSF_I16 44100 2)) ''a.wav'' = Some pau \<and>
     sorted (map (\<lambda>(ob, s). Au_GetTimeInPlayback True (Some (out s)))
       (dropWhile (\<lambda>(ob, s). playback_start_time (out s) = - 1)
          (run (refill_rounds [(True, True), (True, True)])
             \<lparr>out = pau, reader = SFFileReader_entry True (Some pau)\<rparr>))) \<and>
     length (dropWhile (\<lambda>(ob, s). playback_start_time (out s) = - 1)
          (run (refill_rounds [(True, True), (True, True)])
             \<lparr>out = pau, reader = SFFileReader_entry True (Some pau)\<rparr>)) = 3 \<and>
     consumed_positions (refill_rounds [(True, True), (True, True)])
        \<lparr>out = pau, reader = SFFileReader_entry True (Some pau)\<rparr> = [0, 256] \<and>
     sorted (consumed_positions (refill_rounds [(True, True), (True, True)])
        \<lparr>out = pau, reader = SFFileReader_entry True (Some pau)\<rparr>)"
proof -
  let ?bs = "[replicate 1024 (7::byte)]"
  let ?f = "fixture_file 44100 2 (full_blocks ?bs)"
  let ?e = "fixture_env (Some ?f)"
  have "0 \<le> AUSF_I16" "AUSF_I16 \<le> 5" by (simp_all add: au_defs)
  from fixture_played [OF this channels_pos(1), of "full_blocks ?bs" "''a.wav''"]
  obtain pau0 cs0 pau cs where
    n: "Au_New (fixture_env None) True AUSF_I16 44100 2 = (Some pau0, cs0)"
    and p: "Au_Play ?e True (Some pau0) ''a.wav'' = Inr (True, Some pau, cs)"
    and pl: "played ?e (fst (Au_New (fixture_env None) True AUSF_I16 44100 2)) ''a.wav'' = Some pau"
    and c: "format pau = AUSF_I16" "channels pau = 2"
    by blast
  let ?s = "\<lparr>out = pau, reader = SFFileReader_entry True (Some pau)\<rparr>"
  from Au_Play_True [OF p] have fs: "fresh_session pau" and fd: "sf_fd pau = Some ?f"
    by (auto simp: fixture_env_def)
  have w: "wired (format pau) \<noteq> None" using c by (simp add: wired_def au_defs)
  have "sf_reads ?f = full_blocks ?bs" by (simp add: fixture_file_def)
  from fresh_playing_inv [OF fs fd this w] have inv: "playing_inv ?bs (out ?s)" by simp
  have rr: "reader ?s = Reader_Running" using c by (simp add: SFFileReader_entry_def au_defs)
  from fs have k: "pa_callback (out ?s) = Ptr_PAPlayCallback"
    "0 < sf_reader_semaphore_storage (out ?s)" "\<not> sf_reader_should_exit (out ?s)"
    "playback_start_time (out ?s) = - 1" "readIndex (sf_buffer_storage (out ?s)) = 0"
    by (simp_all add: fresh_session_def)
  from wired_bufferSizeBytes [OF w c(2)]
  have nb: "0 \<le> bufferSizeBytes (Some (out ?s))" "bufferSizeBytes (Some (out ?s)) \<le> 2048"
    by simp_all
  have lk: "playback_start_time (out ?s) = - 1 \<longrightarrow> True" by simp
  from round_playing [OF inv rr k(1,2,3) lk nb, where ?l2.0 = True
      and evs = "refill_rounds [(True, True)]"]
  obtain s2 b s1 ob where
    o1: "observations (Sched_Reader # Sched_Callback 256 True True # refill_rounds [(True, True)]) ?s =
       (if readIndex (sf_buffer_storage (out ?s)) < length ?bs then paContinue else paComplete,
        Some b, Some (take (nat (bufferSizeBytes (Some (out ?s)))) (data b))) #
       observations (refill_rounds [(True, True)]) s2"
    and e1: "expected_block ?bs (readIndex (sf_buffer_storage (out ?s))) b"
    and i: "playing_inv ?bs (out s2)" "reader s2 = Reader_Running"
      "pa_callback (out s2) = Ptr_PAPlayCallback" "0 < sf_reader_semaphore_storage (out s2)"
      "\<not> sf_reader_should_exit (out s2)" "playback_start_time (out s2) \<noteq> - 1"
      "bufferSizeBytes (Some (out s2)) = bufferSizeBytes (Some (out ?s))"
      "readIndex (sf_buffer_storage (out s2)) = Suc (readIndex (sf_buffer_storage (out ?s)))"
    and r1: "run (Sched_Reader # Sched_Callback 256 True True # refill_rounds [(True, True)]) ?s =
        (None, s1) # (Some ob, s2) # run (refill_rounds [(True, True)]) s2"
      "playback_start_time (out s1) = playback_start_time (out ?s)"
    by blast
  have lk2: "playback_start_time (out s2) = - 1 \<longrightarrow> True" by simp
  from nb i(7) have nb2: "0 \<le> bufferSizeBytes (Some (out s2))"
    "bufferSizeBytes (Some (out s2)) \<le> 2048" by simp_all
  from round_playing [OF i(1-5) lk2 nb2, where ?l2.0 = True and evs = "[]"]
  obtain s4 b' s3 ob' where
    o2: "observations (Sched_Reader # Sched_Callback 256 True True # []) s2 =
       (if readIndex (sf_buffer_storage (out s2)) < length ?bs then paContinue else paComplete,
        Some b', Some (take (nat (bufferSizeBytes (Some (out s2)))) (data b'))) #
       observations [] s4"
    and e2: "expected_block ?bs (readIndex (sf_buffer_storage (out s2))) b'"
    and r2: "run (Sched_Reader # Sched_Callback 256 True True # []) s2 =
        (None, s3) # (Some ob', s4) # run [] s4"
    by blast
  have rf: "refill_rounds [(True, True), (True, True)] =
      Sched_Reader # Sched_Callback 256 True True # refill_rounds [(True, True)]"
    "refill_rounds [(True, True)] = Sched_Reader # Sched_Callback 256 True True # []"
    by (simp_all add: refill_rounds_def)
  have run: "run (refill_rounds [(True, True), (True, True)]) ?s =
      [(None, s1), (Some ob, s2), (None, s3), (Some ob', s4)]"
    using r1(1) r2 by (simp only: rf) simp
  have len: "length (dropWhile (\<lambda>(ob, s). playback_start_time (out s) = - 1)
          (run (refill_rounds [(True, True), (True, True)]) ?s)) = 3"
    using r1(2) k(4) i(6) by (simp add: run)
  from e1 k(5) have pb: "pos_frames b = 0" by (simp add: expected_block_def)
  from e2 i(8) k(5) have pb': "pos_frames b' = 256" by (simp add: expected_block_def)
  have "\<exists>x y x' y'. observations (refill_rounds [(True, True), (True, True)]) ?s =
      [(x, Some b, y), (x', Some b', y')]"
    using o1 o2 by (simp only: rf) simp
  then have cp: "consumed_positions (refill_rounds [(True, True), (True, True)]) ?s = [0, 256]"
    using pb pb' by (auto simp: consumed_positions_def List.map_filter_simps)
  from n have "reachable pau0" by (rule reach_New)
  from time_in_playback_monotone [OF this p, of "refill_rounds [(True, True), (True, True)]"]
    pl len cp
  show ?thesis by simp
qed

subsection \<open>C10: what Au\_New checks\<close>



end
